theory Spec2Isabelle
  imports Main "HOL-Library.Word"
begin

text \<open>
  The character set handling of pydicom (\<open>pydicom/charset.py\<close>): the tables of
  encodings and escape codes, \<open>decode_string\<close> and \<open>encode_string\<close> with their
  helpers, and \<open>convert_encodings\<close>, as functions of HOL under Python 3. The strict
  mode \<open>config.enforce_valid_values\<close> is an argument of each function that reads it.
\<close>

section \<open>Data model\<close>

text \<open>
  A Python 3 text value is a sequence of Unicode code points, a byte string is a sequence
  of 8-bit values. Encoding names, error-handler names and DICOM identifiers are strings.
\<close>

type_synonym unicode = "nat list"
type_synonym bytes = "8 word list"

text \<open>An ASCII bytes literal \<open>b'...'\<close> and an ASCII text literal \<open>u'...'\<close>.\<close>

definition bytes_of :: "string \<Rightarrow> bytes" where
  "bytes_of s = map (\<lambda>c. of_nat (of_char c)) s"

definition text_of :: "string \<Rightarrow> unicode" where
  "text_of s = map of_char s"

text \<open>
  The exceptions the module can meet. \<open>UnicodeEncodeError\<close> and \<open>UnicodeDecodeError\<close>
  carry the codec name, the offending object and the range \<open>[start, end)\<close>; both are
  subclasses of \<open>UnicodeError\<close>, which is a subclass of \<open>ValueError\<close>. A codec
  may also raise a plain \<open>UnicodeError\<close>, which has no attribute \<open>start\<close>.
\<close>

datatype py_error =
    LookupError
  | UnicodeError
  | UnicodeEncodeError string unicode nat nat
  | UnicodeDecodeError string bytes nat nat
  | ValueError
  | IndexError
  | KeyError
  | TypeError
  | AttributeError

fun is_UnicodeError :: "py_error \<Rightarrow> bool" where
  "is_UnicodeError UnicodeError = True"
| "is_UnicodeError (UnicodeEncodeError _ _ _ _) = True"
| "is_UnicodeError (UnicodeDecodeError _ _ _ _) = True"
| "is_UnicodeError _ = False"

fun is_ValueError :: "py_error \<Rightarrow> bool" where
  "is_ValueError ValueError = True"
| "is_ValueError e = is_UnicodeError e"

text \<open>The attribute \<open>e.start\<close>, where the exception has it.\<close>

fun error_start :: "py_error \<Rightarrow> nat option" where
  "error_start (UnicodeEncodeError _ _ s _) = Some s"
| "error_start (UnicodeDecodeError _ _ s _) = Some s"
| "error_start _ = None"

text \<open>One constructor for each message the module passes to \<open>warnings.warn\<close>.\<close>

datatype warning =
    Unknown_encoding_using_default string
  | Failed_to_decode_with_encoding string
  | Failed_to_decode_with_encodings "string list"
  | Unknown_escape_sequence_using string
  | Failed_to_encode_with_encodings "string list"
  | Incorrect_value_assuming string string
  | No_code_extensions_ignoring string "string list"
  | Not_a_code_extension_ignoring string

text \<open>
  A call yields the warnings it emitted, in order, and either the raised exception
  or the returned value.
\<close>

type_synonym 'a res = "warning list \<times> (py_error + 'a)"

text \<open>
  The codec layer is Python's: \<open>value.encode(encoding, errors)\<close>,
  \<open>value.decode(encoding, errors)\<close> and \<open>codecs.lookup(encoding)\<close>, each of which
  returns or raises. The module's functions take it as a parameter.
\<close>

record codecs =
  str_encode :: "unicode \<Rightarrow> string \<Rightarrow> string \<Rightarrow> py_error + bytes"
  bytes_decode :: "bytes \<Rightarrow> string \<Rightarrow> string \<Rightarrow> py_error + unicode"
  codecs_lookup :: "string \<Rightarrow> py_error + unit"

section \<open>Codec registry\<close>

definition default_encoding :: string where
  "default_encoding = ''iso8859''"

definition python_encoding_items :: "(string \<times> string) list" where
  "python_encoding_items =
   [('''', default_encoding),
    (''ISO_IR 6'', default_encoding),
    (''ISO_IR 13'', ''shift_jis''),
    (''ISO_IR 100'', ''latin_1''),
    (''ISO_IR 101'', ''iso8859_2''),
    (''ISO_IR 109'', ''iso8859_3''),
    (''ISO_IR 110'', ''iso8859_4''),
    (''ISO_IR 126'', ''iso_ir_126''),
    (''ISO_IR 127'', ''iso_ir_127''),
    (''ISO_IR 138'', ''iso_ir_138''),
    (''ISO_IR 144'', ''iso_ir_144''),
    (''ISO_IR 148'', ''iso_ir_148''),
    (''ISO_IR 166'', ''iso_ir_166''),
    (''ISO 2022 IR 6'', ''iso8859''),
    (''ISO 2022 IR 13'', ''shift_jis''),
    (''ISO 2022 IR 87'', ''iso2022_jp''),
    (''ISO 2022 IR 100'', ''latin_1''),
    (''ISO 2022 IR 101'', ''iso8859_2''),
    (''ISO 2022 IR 109'', ''iso8859_3''),
    (''ISO 2022 IR 110'', ''iso8859_4''),
    (''ISO 2022 IR 126'', ''iso_ir_126''),
    (''ISO 2022 IR 127'', ''iso_ir_127''),
    (''ISO 2022 IR 138'', ''iso_ir_138''),
    (''ISO 2022 IR 144'', ''iso_ir_144''),
    (''ISO 2022 IR 148'', ''iso_ir_148''),
    (''ISO 2022 IR 149'', ''euc_kr''),
    (''ISO 2022 IR 159'', ''iso-2022-jp''),
    (''ISO 2022 IR 166'', ''iso_ir_166''),
    (''ISO 2022 IR 58'', ''iso_ir_58''),
    (''ISO_IR 192'', ''UTF8''),
    (''GB18030'', ''GB18030''),
    (''ISO 2022 GBK'', ''GBK''),
    (''ISO 2022 58'', ''GB2312''),
    (''GBK'', ''GBK'')]"

definition python_encoding :: "string \<rightharpoonup> string" where
  "python_encoding = map_of python_encoding_items"

definition STAND_ALONE_ENCODINGS :: "string list" where
  "STAND_ALONE_ENCODINGS = [''ISO_IR 192'', ''GBK'', ''GB18030'']"

text \<open>\<open>ESC = b'\x1b'\<close> is the one-byte string holding this byte.\<close>

definition ESC :: "8 word" where
  "ESC = 0x1B"

definition CODES_TO_ENCODINGS_items :: "(bytes \<times> string) list" where
  "CODES_TO_ENCODINGS_items =
   [(ESC # bytes_of ''(B'', default_encoding),
    (ESC # bytes_of ''-A'', ''latin_1''),
    (ESC # bytes_of '')I'', ''shift_jis''),
    (ESC # bytes_of ''(J'', ''shift_jis''),
    (ESC # bytes_of ''$B'', ''iso2022_jp''),
    (ESC # bytes_of ''-B'', ''iso8859_2''),
    (ESC # bytes_of ''-C'', ''iso8859_3''),
    (ESC # bytes_of ''-D'', ''iso8859_4''),
    (ESC # bytes_of ''-F'', ''iso_ir_126''),
    (ESC # bytes_of ''-G'', ''iso_ir_127''),
    (ESC # bytes_of ''-H'', ''iso_ir_138''),
    (ESC # bytes_of ''-L'', ''iso_ir_144''),
    (ESC # bytes_of ''-M'', ''iso_ir_148''),
    (ESC # bytes_of ''-T'', ''iso_ir_166''),
    (ESC # bytes_of ''$)C'', ''euc_kr''),
    (ESC # bytes_of ''$(D'', ''iso-2022-jp''),
    (ESC # bytes_of ''$)A'', ''iso_ir_58'')]"

definition CODES_TO_ENCODINGS :: "bytes \<rightharpoonup> string" where
  "CODES_TO_ENCODINGS = map_of CODES_TO_ENCODINGS_items"

text \<open>
  \<open>{v: k for k, v in CODES_TO_ENCODINGS.items()}\<close>: a later item overwrites an earlier
  one with the same value, so the lookup takes the last match; then the entry of
  \<open>shift_jis\<close> is set by hand.
\<close>

definition ENCODINGS_TO_CODES :: "string \<rightharpoonup> bytes" where
  "ENCODINGS_TO_CODES =
     (map_of (rev (map (\<lambda>(k, v). (v, k)) CODES_TO_ENCODINGS_items)))
       (''shift_jis'' \<mapsto> ESC # bytes_of '')I'')"

definition handled_encodings :: "string list" where
  "handled_encodings = [''iso2022_jp'', ''iso-2022-jp'', ''iso_ir_58'']"

definition need_tail_escape_sequence_encodings :: "string list" where
  "need_tail_escape_sequence_encodings = [''iso2022_jp'', ''iso-2022-jp'']"

section \<open>Decoding\<close>

text \<open>
  \<open>next((index for index, ch in enumerate(byte_str) if ch in delimiters), None)\<close>
\<close>

definition first_delimiter :: "8 word set \<Rightarrow> bytes \<Rightarrow> nat option" where
  "first_delimiter delimiters byte_str =
     map_option fst (find (\<lambda>(index, ch). ch \<in> delimiters) (enumerate 0 byte_str))"

definition decode_escaped_fragment ::
  "codecs \<Rightarrow> bool \<Rightarrow> bytes \<Rightarrow> string list \<Rightarrow> 8 word set \<Rightarrow> unicode res" where
  "decode_escaped_fragment cs enforce_valid_values byte_str encodings delimiters =
    (let seq_length =
           (if take 3 byte_str = ESC # bytes_of ''$('' \<or> take 3 byte_str = ESC # bytes_of ''$)''
            then 4 else 3 :: nat);
         encoding = (case CODES_TO_ENCODINGS (take seq_length byte_str) of
                       None \<Rightarrow> '''' | Some e \<Rightarrow> e)
     in if encoding \<in> set encodings \<or> encoding = default_encoding then
          if encoding \<in> set handled_encodings then
            ([], bytes_decode cs byte_str encoding ''strict'')
          else
            (let byte_str' = drop seq_length byte_str in
             case first_delimiter delimiters byte_str' of
               Some index \<Rightarrow>
                 (case bytes_decode cs (take index byte_str') encoding ''strict'' of
                    Inl e \<Rightarrow> ([], Inl e)
                  | Inr t1 \<Rightarrow>
                     (case encodings of
                        [] \<Rightarrow> ([], Inl IndexError)
                      | first # _ \<Rightarrow>
                         (case bytes_decode cs (drop index byte_str') first ''strict'' of
                            Inl e \<Rightarrow> ([], Inl e)
                          | Inr t2 \<Rightarrow> ([], Inr (t1 @ t2)))))
             | None \<Rightarrow> ([], bytes_decode cs byte_str' encoding ''strict''))
        else if enforce_valid_values then ([], Inl ValueError)
        else (case encodings of
                [] \<Rightarrow> ([], Inl IndexError)
              | first # _ \<Rightarrow>
                  ([Unknown_escape_sequence_using first],
                   bytes_decode cs byte_str first ''replace'')))"

definition decode_fragment ::
  "codecs \<Rightarrow> bool \<Rightarrow> bytes \<Rightarrow> string list \<Rightarrow> 8 word set \<Rightarrow> unicode res" where
  "decode_fragment cs enforce_valid_values byte_str encodings delimiters =
    (let (ws, r) =
           (if take 1 byte_str = [ESC] then
              decode_escaped_fragment cs enforce_valid_values byte_str encodings delimiters
            else (case encodings of
                    [] \<Rightarrow> ([], Inl IndexError)
                  | first # _ \<Rightarrow> ([], bytes_decode cs byte_str first ''strict'')))
     in case r of
          Inr t \<Rightarrow> (ws, Inr t)
        | Inl e \<Rightarrow>
            if is_UnicodeError e then
              if enforce_valid_values then (ws, Inl e)
              else (case encodings of
                      [] \<Rightarrow> (ws @ [Failed_to_decode_with_encodings encodings], Inl IndexError)
                    | first # _ \<Rightarrow>
                        (ws @ [Failed_to_decode_with_encodings encodings],
                         bytes_decode cs byte_str first ''replace''))
            else (ws, Inl e))"

text \<open>
  \<open>re.findall(b'(^[^\x1b]+|[\x1b][^\x1b]*)', value)\<close>: the scan goes from left to
  right; at a position it tries the first alternative (only at the start of the value, and
  only for at least one byte), then the second; where neither matches it moves one byte on.
\<close>

function findall_fragments :: "bool \<Rightarrow> bytes \<Rightarrow> bytes list" where
  "findall_fragments at_start [] = []"
| "findall_fragments at_start (c # rest) =
     (if c = ESC then
        (c # takeWhile (\<lambda>x. x \<noteq> ESC) rest)
          # findall_fragments False (dropWhile (\<lambda>x. x \<noteq> ESC) rest)
      else if at_start then
        takeWhile (\<lambda>x. x \<noteq> ESC) (c # rest)
          # findall_fragments False (dropWhile (\<lambda>x. x \<noteq> ESC) (c # rest))
      else findall_fragments False rest)"
  by pat_completeness auto
termination
  by (relation "measure (\<lambda>(a, v). length v)")
     (auto simp: less_Suc_eq_le length_dropWhile_le)

text \<open>\<open>u''.join([_decode_fragment(fragment, ...) for fragment in fragments])\<close>\<close>

fun decode_fragments ::
  "codecs \<Rightarrow> bool \<Rightarrow> bytes list \<Rightarrow> string list \<Rightarrow> 8 word set \<Rightarrow> unicode list res" where
  "decode_fragments cs enforce_valid_values [] encodings delimiters = ([], Inr [])"
| "decode_fragments cs enforce_valid_values (fragment # fragments) encodings delimiters =
     (case decode_fragment cs enforce_valid_values fragment encodings delimiters of
        (ws, Inl e) \<Rightarrow> (ws, Inl e)
      | (ws, Inr t) \<Rightarrow>
          (case decode_fragments cs enforce_valid_values fragments encodings delimiters of
             (ws', Inl e) \<Rightarrow> (ws @ ws', Inl e)
           | (ws', Inr ts) \<Rightarrow> (ws @ ws', Inr (t # ts))))"

definition decode_string ::
  "codecs \<Rightarrow> bool \<Rightarrow> bytes \<Rightarrow> string list \<Rightarrow> 8 word set \<Rightarrow> unicode res" where
  "decode_string cs enforce_valid_values value encodings delimiters =
    (if ESC \<notin> set value then
       (case encodings of
          [] \<Rightarrow> ([], Inl IndexError)
        | first_encoding # _ \<Rightarrow>
           (case bytes_decode cs value first_encoding ''strict'' of
              Inr t \<Rightarrow> ([], Inr t)
            | Inl e \<Rightarrow>
               if e = LookupError then
                 if enforce_valid_values then ([], Inl e)
                 else ([Unknown_encoding_using_default first_encoding],
                       bytes_decode cs value default_encoding ''strict'')
               else if is_UnicodeError e then
                 if enforce_valid_values then ([], Inl e)
                 else ([Failed_to_decode_with_encoding first_encoding],
                       bytes_decode cs value first_encoding ''replace'')
               else ([], Inl e)))
     else
       (case decode_fragments cs enforce_valid_values (findall_fragments True value)
               encodings delimiters of
          (ws, Inl e) \<Rightarrow> (ws, Inl e)
        | (ws, Inr ts) \<Rightarrow> (ws, Inr (concat ts))))"

section \<open>Encoding\<close>

text \<open>
  The loop of \<open>_encode_to_jis_x_0201\<close> over \<open>enumerate(value)\<close>, with its
  variables \<open>buf\<close>, \<open>start\<close> and \<open>end\<close>. A character's own \<open>encode\<close> may raise.
\<close>

fun encode_to_jis_x_0201_loop ::
  "codecs \<Rightarrow> string \<Rightarrow> (nat \<times> nat) list \<Rightarrow> bytes \<Rightarrow> nat \<Rightarrow> nat
     \<Rightarrow> py_error + (bytes \<times> nat \<times> nat)" where
  "encode_to_jis_x_0201_loop cs errors [] buf start end = Inr (buf, start, end)"
| "encode_to_jis_x_0201_loop cs errors ((i, c) # rest) buf start end =
     (case str_encode cs [c] ''shift_jis'' errors of
        Inl e \<Rightarrow> Inl e
      | Inr encoded \<Rightarrow>
          if length encoded \<noteq> 1 then
            encode_to_jis_x_0201_loop cs errors rest (buf @ bytes_of ''?'')
              (min start i) (max end (i + 1))
          else encode_to_jis_x_0201_loop cs errors rest (buf @ encoded) start end)"

definition encode_to_jis_x_0201 :: "codecs \<Rightarrow> unicode \<Rightarrow> string \<Rightarrow> py_error + bytes" where
  "encode_to_jis_x_0201 cs value errors =
     (case encode_to_jis_x_0201_loop cs errors (enumerate 0 value) [] (length value) 0 of
        Inl e \<Rightarrow> Inl e
      | Inr (buf, start, end) \<Rightarrow>
          if start < length value \<and> 0 < end \<and> errors = ''strict''
          then Inl (UnicodeEncodeError ''shift_jis'' value start end)
          else Inr buf)"

definition encode_to_jis_x_0208 :: "codecs \<Rightarrow> unicode \<Rightarrow> string \<Rightarrow> py_error + bytes" where
  "encode_to_jis_x_0208 cs value errors =
     (case str_encode cs value ''iso2022_jp'' errors of
        Inl e \<Rightarrow> Inl e
      | Inr encoded \<Rightarrow>
          (case ENCODINGS_TO_CODES default_encoding of
             None \<Rightarrow> Inl KeyError
           | Some code \<Rightarrow>
               if drop (length encoded - 3) encoded = code
               then Inr (take (length encoded - 3) encoded)
               else Inr encoded))"

definition get_escape_sequence_to_alphanumeric :: "string list \<Rightarrow> py_error + bytes" where
  "get_escape_sequence_to_alphanumeric encodings =
     (case encodings of
        [] \<Rightarrow> Inl IndexError
      | first # _ \<Rightarrow>
          if first = ''shift_jis'' then Inr (ESC # bytes_of ''(J'')
          else Inr (case ENCODINGS_TO_CODES first of None \<Rightarrow> [] | Some code \<Rightarrow> code))"

definition custom_encoders ::
  "string \<rightharpoonup> (codecs \<Rightarrow> unicode \<Rightarrow> string \<Rightarrow> py_error + bytes)" where
  "custom_encoders =
     map_of [(''shift_jis'', encode_to_jis_x_0201),
             (''iso2022_jp'', encode_to_jis_x_0208),
             (''iso-2022-jp'', encode_to_jis_x_0208)]"

definition encode_string_impl ::
  "codecs \<Rightarrow> unicode \<Rightarrow> string \<Rightarrow> string \<Rightarrow> py_error + bytes" where
  "encode_string_impl cs value encoding errors =
     (case custom_encoders encoding of
        Some encoder \<Rightarrow> encoder cs value errors
      | None \<Rightarrow> str_encode cs value encoding errors)"

text \<open>
  The inner \<open>for\<close> loop of \<open>_encode_string_parts\<close>, with its variables \<open>max_index\<close>
  and \<open>best_encoding\<close> (\<open>None\<close> until an encoding is chosen).
\<close>

fun find_best_encoding ::
  "codecs \<Rightarrow> unicode \<Rightarrow> string list \<Rightarrow> nat \<Rightarrow> string option
     \<Rightarrow> py_error + (nat \<times> string option)" where
  "find_best_encoding cs unencoded_part [] max_index best_encoding =
     Inr (max_index, best_encoding)"
| "find_best_encoding cs unencoded_part (encoding # rest) max_index best_encoding =
     (case encode_string_impl cs unencoded_part encoding ''strict'' of
        Inr _ \<Rightarrow> Inr (length unencoded_part, Some encoding)
      | Inl e \<Rightarrow>
          if is_UnicodeError e then
            (case error_start e of
               None \<Rightarrow> Inl AttributeError
             | Some start \<Rightarrow>
                 if start > max_index
                 then find_best_encoding cs unencoded_part rest start (Some encoding)
                 else find_best_encoding cs unencoded_part rest max_index best_encoding)
          else Inl e)"

text \<open>The \<open>while unencoded_part\<close> loop; it yields \<open>encoded\<close> and \<open>best_encoding\<close>.\<close>

function encode_string_parts_loop ::
  "codecs \<Rightarrow> string list \<Rightarrow> bytes \<Rightarrow> unicode \<Rightarrow> string option
     \<Rightarrow> py_error + (bytes \<times> string option)" where
  "encode_string_parts_loop cs encodings encoded unencoded_part best_encoding =
     (if unencoded_part = [] then Inr (encoded, best_encoding)
      else
        (case find_best_encoding cs unencoded_part encodings 0 best_encoding of
           Inl e \<Rightarrow> Inl e
         | Inr (max_index, best) \<Rightarrow>
             if max_index = 0 then Inl ValueError
             else
               (case best of
                  None \<Rightarrow> Inl TypeError
                | Some best_enc \<Rightarrow>
                    (case encode_string_impl cs (take max_index unencoded_part)
                            best_enc ''strict'' of
                       Inl e \<Rightarrow> Inl e
                     | Inr encoded_part \<Rightarrow>
                         encode_string_parts_loop cs encodings
                           (encoded
                              @ (if best_enc \<notin> set handled_encodings
                                 then (case ENCODINGS_TO_CODES best_enc of
                                         None \<Rightarrow> [] | Some code \<Rightarrow> code)
                                 else [])
                              @ encoded_part)
                           (drop max_index unencoded_part) best))))"
  by pat_completeness auto
termination
  by (relation "measure (\<lambda>(cs, encodings, encoded, unencoded_part, best). length unencoded_part)")
     auto

definition encode_string_parts :: "codecs \<Rightarrow> unicode \<Rightarrow> string list \<Rightarrow> py_error + bytes" where
  "encode_string_parts cs value encodings =
     (case encode_string_parts_loop cs encodings [] value None of
        Inl e \<Rightarrow> Inl e
      | Inr (encoded, best_encoding) \<Rightarrow>
          (case best_encoding of
             None \<Rightarrow> Inr encoded
           | Some best \<Rightarrow>
               if best \<in> set need_tail_escape_sequence_encodings then
                 (case get_escape_sequence_to_alphanumeric encodings of
                    Inl e \<Rightarrow> Inl e
                  | Inr tail \<Rightarrow> Inr (encoded @ tail))
               else Inr encoded))"

text \<open>
  The \<open>for i, encoding in enumerate(encodings)\<close> loop of \<open>encode_string\<close>:
  \<open>Some\<close> when the loop returns or raises, \<open>None\<close> when it is exhausted and the
  \<open>else\<close> clause runs.
\<close>

fun encode_string_loop ::
  "codecs \<Rightarrow> unicode \<Rightarrow> string list \<Rightarrow> (nat \<times> string) list \<Rightarrow> (py_error + bytes) option" where
  "encode_string_loop cs value encodings [] = None"
| "encode_string_loop cs value encodings ((i, encoding) # rest) =
     (case encode_string_impl cs value encoding ''strict'' of
        Inl e \<Rightarrow>
          if is_UnicodeError e then encode_string_loop cs value encodings rest
          else Some (Inl e)
      | Inr encoded \<Rightarrow>
          (let encoded' =
                 (if 0 < i \<and> encoding \<notin> set handled_encodings
                  then (case ENCODINGS_TO_CODES encoding of
                          None \<Rightarrow> [] | Some code \<Rightarrow> code) @ encoded
                  else encoded)
           in if encoding \<in> set need_tail_escape_sequence_encodings then
                (case get_escape_sequence_to_alphanumeric encodings of
                   Inl e \<Rightarrow>
                     if is_UnicodeError e then encode_string_loop cs value encodings rest
                     else Some (Inl e)
                 | Inr tail \<Rightarrow> Some (Inr (encoded' @ tail)))
              else Some (Inr encoded')))"

definition encode_string :: "codecs \<Rightarrow> bool \<Rightarrow> unicode \<Rightarrow> string list \<Rightarrow> bytes res" where
  "encode_string cs enforce_valid_values value encodings =
     (case encode_string_loop cs value encodings (enumerate 0 encodings) of
        Some r \<Rightarrow> ([], r)
      | None \<Rightarrow>
          (let parts = (if length encodings > 1
                        then encode_string_parts cs value encodings
                        else Inl ValueError)
           in case parts of
                Inr encoded \<Rightarrow> ([], Inr encoded)
              | Inl e \<Rightarrow>
                  if \<not> is_ValueError e then ([], Inl e)
                  else
                    (case encodings of
                       [] \<Rightarrow>
                         if enforce_valid_values then ([], Inl IndexError)
                         else ([Failed_to_encode_with_encodings encodings], Inl IndexError)
                     | first # _ \<Rightarrow>
                         (case (if enforce_valid_values
                                then str_encode cs value first ''strict''
                                else Inr []) of
                            Inl e' \<Rightarrow> ([], Inl e')
                          | Inr _ \<Rightarrow>
                              ([Failed_to_encode_with_encodings encodings],
                               encode_string_impl cs value first ''replace'')))))"

section \<open>Identifier resolution\<close>

text \<open>\<open>re.match('^ISO[^_]IR', encoding)\<close>\<close>

definition matches_ISO_IR :: "string \<Rightarrow> bool" where
  "matches_ISO_IR encoding \<longleftrightarrow>
     6 \<le> length encoding \<and> take 3 encoding = ''ISO'' \<and> encoding ! 3 \<noteq> CHR ''_''
       \<and> take 2 (drop 4 encoding) = ''IR''"

text \<open>
  \<open>re.match('^(?=ISO.2022.IR.)(?!ISO 2022 IR )', encoding)\<close>; a dot matches any
  character but the newline.
\<close>

definition matches_ISO_2022_IR :: "string \<Rightarrow> bool" where
  "matches_ISO_2022_IR encoding \<longleftrightarrow>
     12 \<le> length encoding \<and> take 3 encoding = ''ISO'' \<and> encoding ! 3 \<noteq> CHR 0x0A
       \<and> take 4 (drop 4 encoding) = ''2022'' \<and> encoding ! 8 \<noteq> CHR 0x0A
       \<and> take 2 (drop 9 encoding) = ''IR'' \<and> encoding ! 11 \<noteq> CHR 0x0A
       \<and> take 12 encoding \<noteq> ''ISO 2022 IR ''"

definition warn_about_invalid_encoding :: "bool \<Rightarrow> string \<Rightarrow> string option \<Rightarrow> unit res" where
  "warn_about_invalid_encoding enforce_valid_values encoding patched_encoding =
     (case patched_encoding of
        None \<Rightarrow>
          if enforce_valid_values then ([], Inl LookupError)
          else ([Unknown_encoding_using_default encoding], Inr ())
      | Some patched \<Rightarrow> ([Incorrect_value_assuming encoding patched], Inr ()))"

definition python_encoding_for_corrected_encoding ::
  "codecs \<Rightarrow> bool \<Rightarrow> string \<Rightarrow> string res" where
  "python_encoding_for_corrected_encoding cs enforce_valid_values encoding =
     (let patched =
            (if matches_ISO_IR encoding then Some (''ISO_IR'' @ drop 6 encoding)
             else if matches_ISO_2022_IR encoding
               then Some (''ISO 2022 IR '' @ drop 12 encoding)
             else None)
      in case patched of
           Some p \<Rightarrow>
             (case python_encoding p of
                Some py_encoding \<Rightarrow>
                  (case warn_about_invalid_encoding enforce_valid_values encoding (Some p) of
                     (ws, Inl e) \<Rightarrow> (ws, Inl e)
                   | (ws, Inr _) \<Rightarrow> (ws, Inr py_encoding))
              | None \<Rightarrow>
                  (case warn_about_invalid_encoding enforce_valid_values encoding None of
                     (ws, Inl e) \<Rightarrow> (ws, Inl e)
                   | (ws, Inr _) \<Rightarrow> (ws, Inr default_encoding)))
         | None \<Rightarrow>
             (case codecs_lookup cs encoding of
                Inr _ \<Rightarrow> ([], Inr encoding)
              | Inl e \<Rightarrow>
                  if e = LookupError then
                    (case warn_about_invalid_encoding enforce_valid_values encoding None of
                       (ws, Inl e') \<Rightarrow> (ws, Inl e')
                     | (ws, Inr _) \<Rightarrow> (ws, Inr default_encoding))
                  else ([], Inl e)))"

text \<open>
  The loop \<open>for i, encoding in reversed(list(enumerate(encodings[1:])))\<close> with its
  \<open>del py_encodings[i + 1]\<close>, which raises \<open>IndexError\<close> out of range.
\<close>

fun delete_standalone_encodings :: "(nat \<times> string) list \<Rightarrow> string list \<Rightarrow> string list res" where
  "delete_standalone_encodings [] py_encodings = ([], Inr py_encodings)"
| "delete_standalone_encodings ((i, encoding) # rest) py_encodings =
     (if encoding \<in> set STAND_ALONE_ENCODINGS then
        if i + 1 < length py_encodings then
          (case delete_standalone_encodings rest
                  (take (i + 1) py_encodings @ drop (i + 2) py_encodings) of
             (ws, r) \<Rightarrow> (Not_a_code_extension_ignoring encoding # ws, r))
        else ([Not_a_code_extension_ignoring encoding], Inl IndexError)
      else delete_standalone_encodings rest py_encodings)"

definition handle_illegal_standalone_encodings ::
  "string list \<Rightarrow> string list \<Rightarrow> string list res" where
  "handle_illegal_standalone_encodings encodings py_encodings =
     (case encodings of
        [] \<Rightarrow> ([], Inl IndexError)
      | first # rest \<Rightarrow>
          if first \<in> set STAND_ALONE_ENCODINGS then
            ([No_code_extensions_ignoring first rest], Inr (take 1 py_encodings))
          else delete_standalone_encodings (rev (enumerate 0 rest)) py_encodings)"

text \<open>The loop \<open>for encoding in encodings\<close> that appends to \<open>py_encodings\<close>.\<close>

fun resolve_encodings :: "codecs \<Rightarrow> bool \<Rightarrow> string list \<Rightarrow> string list \<Rightarrow> string list res" where
  "resolve_encodings cs enforce_valid_values [] py_encodings = ([], Inr py_encodings)"
| "resolve_encodings cs enforce_valid_values (encoding # rest) py_encodings =
     (case python_encoding encoding of
        Some py_encoding \<Rightarrow>
          resolve_encodings cs enforce_valid_values rest (py_encodings @ [py_encoding])
      | None \<Rightarrow>
          (case python_encoding_for_corrected_encoding cs enforce_valid_values encoding of
             (ws, Inl e) \<Rightarrow> (ws, Inl e)
           | (ws, Inr py_encoding) \<Rightarrow>
               (case resolve_encodings cs enforce_valid_values rest
                       (py_encodings @ [py_encoding]) of
                  (ws', r) \<Rightarrow> (ws @ ws', r))))"

text \<open>The argument of \<open>convert_encodings\<close> is a list of strings or one bare string.\<close>

datatype encodings_arg = Str string | Lst "string list"

definition convert_encodings :: "codecs \<Rightarrow> bool \<Rightarrow> encodings_arg \<Rightarrow> string list res" where
  "convert_encodings cs enforce_valid_values arg =
     (case (case arg of
              Str s \<Rightarrow> Inr [s]
            | Lst [] \<Rightarrow> Inl IndexError
            | Lst (first # rest) \<Rightarrow> Inr ((if first = [] then ''ISO_IR 6'' else first) # rest)) of
        Inl e \<Rightarrow> ([], Inl e)
      | Inr encodings \<Rightarrow>
          (case resolve_encodings cs enforce_valid_values encodings [] of
             (ws, Inl e) \<Rightarrow> (ws, Inl e)
           | (ws, Inr py_encodings) \<Rightarrow>
               if length encodings > 1 then
                 (case handle_illegal_standalone_encodings encodings py_encodings of
                    (ws', r) \<Rightarrow> (ws @ ws', r))
               else (ws, Inr py_encodings)))"

subsection \<open>The same resolution on a store of list objects\<close>

text \<open>
  \<open>convert_encodings\<close> works on Python lists, which are mutable objects: it copies its
  argument, assigns to element 0 of the copy, appends to a new list and deletes from it in
  place. To see which objects it changes, the functions are given a store of list objects
  as well: an address is an index into the store, a new object goes to the end. The
  slices and enumerations the loops iterate over are temporaries and are not stored.
\<close>

type_synonym store = "string list list"

definition new_list :: "store \<Rightarrow> string list \<Rightarrow> store \<times> nat" where
  "new_list h xs = (h @ [xs], length h)"

text \<open>\<open>py_encodings.append(...)\<close> for each encoding, on the object at \<open>py_encodings\<close>.\<close>

fun resolve_encodings_st ::
  "codecs \<Rightarrow> bool \<Rightarrow> string list \<Rightarrow> nat \<Rightarrow> store \<Rightarrow> store \<times> unit res" where
  "resolve_encodings_st cs enforce_valid_values [] py_encodings h = (h, [], Inr ())"
| "resolve_encodings_st cs enforce_valid_values (encoding # rest) py_encodings h =
     (case python_encoding encoding of
        Some py_encoding \<Rightarrow>
          resolve_encodings_st cs enforce_valid_values rest py_encodings
            (h[py_encodings := h ! py_encodings @ [py_encoding]])
      | None \<Rightarrow>
          (case python_encoding_for_corrected_encoding cs enforce_valid_values encoding of
             (ws, Inl e) \<Rightarrow> (h, ws, Inl e)
           | (ws, Inr py_encoding) \<Rightarrow>
               (case resolve_encodings_st cs enforce_valid_values rest py_encodings
                       (h[py_encodings := h ! py_encodings @ [py_encoding]]) of
                  (h', ws', r) \<Rightarrow> (h', ws @ ws', r))))"

text \<open>\<open>del py_encodings[i + 1]\<close>, in place.\<close>

fun delete_standalone_encodings_st ::
  "(nat \<times> string) list \<Rightarrow> nat \<Rightarrow> store \<Rightarrow> store \<times> unit res" where
  "delete_standalone_encodings_st [] py_encodings h = (h, [], Inr ())"
| "delete_standalone_encodings_st ((i, encoding) # rest) py_encodings h =
     (if encoding \<in> set STAND_ALONE_ENCODINGS then
        if i + 1 < length (h ! py_encodings) then
          (case delete_standalone_encodings_st rest py_encodings
                  (h[py_encodings :=
                       take (i + 1) (h ! py_encodings) @ drop (i + 2) (h ! py_encodings)]) of
             (h', ws, r) \<Rightarrow> (h', Not_a_code_extension_ignoring encoding # ws, r))
        else (h, [Not_a_code_extension_ignoring encoding], Inl IndexError)
      else delete_standalone_encodings_st rest py_encodings h)"

text \<open>\<open>py_encodings[:1]\<close> is a new list; the other branch returns the list it was given.\<close>

definition handle_illegal_standalone_encodings_st ::
  "nat \<Rightarrow> nat \<Rightarrow> store \<Rightarrow> store \<times> nat res" where
  "handle_illegal_standalone_encodings_st encodings py_encodings h =
     (case h ! encodings of
        [] \<Rightarrow> (h, [], Inl IndexError)
      | first # rest \<Rightarrow>
          if first \<in> set STAND_ALONE_ENCODINGS then
            (let (h', sliced) = new_list h (take 1 (h ! py_encodings))
             in (h', [No_code_extensions_ignoring first rest], Inr sliced))
          else
            (case delete_standalone_encodings_st (rev (enumerate 0 rest)) py_encodings h of
               (h', ws, Inl e) \<Rightarrow> (h', ws, Inl e)
             | (h', ws, Inr _) \<Rightarrow> (h', ws, Inr py_encodings)))"

text \<open>
  \<open>convert_encodings\<close> called with the address of a list: \<open>encodings[:]\<close> is a new
  list, \<open>encodings[0] = 'ISO_IR 6'\<close> assigns to it, \<open>py_encodings = []\<close> is a new list.
  The call returns the address of the list of Python encodings.
\<close>

definition convert_encodings_st :: "codecs \<Rightarrow> bool \<Rightarrow> nat \<Rightarrow> store \<Rightarrow> store \<times> nat res" where
  "convert_encodings_st cs enforce_valid_values arg h =
     (let (h1, encodings) = new_list h (h ! arg)
      in case h1 ! encodings of
           [] \<Rightarrow> (h1, [], Inl IndexError)
         | first # rest \<Rightarrow>
             (let h2 = (if first = [] then h1[encodings := (h1 ! encodings)[0 := ''ISO_IR 6'']]
                        else h1);
                  (h3, py_encodings) = new_list h2 []
              in case resolve_encodings_st cs enforce_valid_values (h3 ! encodings)
                        py_encodings h3 of
                   (h4, ws, Inl e) \<Rightarrow> (h4, ws, Inl e)
                 | (h4, ws, Inr _) \<Rightarrow>
                     if length (h4 ! encodings) > 1 then
                       (case handle_illegal_standalone_encodings_st encodings py_encodings h4 of
                          (h5, ws', r) \<Rightarrow> (h5, ws @ ws', r))
                     else (h4, ws, Inr py_encodings)))"

section \<open>A fragment of Python's codec layer\<close>

text \<open>
  Concrete inputs need concrete codecs. \<open>py_codecs\<close> describes Python's own codecs
  on the part used below:
  \<^item> \<open>latin_1\<close> and its alias \<open>iso8859\<close>: code point \<open>n < 256\<close> is byte \<open>n\<close>;
  \<^item> \<open>ascii\<close>: code point \<open>n < 128\<close> is byte \<open>n\<close>;
  \<^item> \<open>shift_jis\<close>: its single-byte part (code points below \<open>0x80\<close> unchanged,
    \<open>U+00A5\<close> as \<open>0x5C\<close>, \<open>U+203E\<close> as \<open>0x7E\<close>, the half-width katakana
    \<open>U+FF61 .. U+FF9F\<close> as \<open>0xA1 .. 0xDF\<close>) and, of its double-byte part, the
    katakana letter \<open>U+30A2\<close> as \<open>0x83 0x41\<close>. The other double-byte characters are
    left out, so \<open>shift_jis\<close> is used below only on the code points named here and on
    \<open>U+00E9\<close>, which the codec cannot encode;
  \<^item> \<open>GBK\<close>: its single-byte part (code points below \<open>0x80\<close> unchanged); its
    double-byte characters are left out, and it is used below only as a known codec name;
  \<^item> \<open>undefined\<close>: encoding, and decoding a value that is not empty, raise a plain
    \<open>UnicodeError\<close> whatever the error handler;
  \<^item> the error handlers \<open>strict\<close>, \<open>replace\<close> and \<open>ignore\<close>; any other handler name
    is taken as unregistered, which raises \<open>LookupError\<close> when an error is met;
  \<^item> a codec name with a NUL character raises \<open>ValueError\<close>, before anything else;
  \<^item> decoding the empty byte string returns the empty text without looking the codec
    up, so also for a name that is unknown; encoding the empty text does look it up;
  \<^item> the codecs are known under the spellings given here only. Every other name is taken
    as unknown (\<open>LookupError\<close>), as Python takes \<open>no_such_codec\<close>, the one such name
    used below; the other names and aliases that Python knows are left out.
  An encoder reports the first character it cannot encode; \<open>run\<close> tells whether the
  reported range extends over the following unencodable characters (the charmap codecs)
  or holds that character alone (the multibyte codecs).
\<close>

fun codec_encode ::
  "string \<Rightarrow> (nat \<Rightarrow> bytes option) \<Rightarrow> bool \<Rightarrow> string \<Rightarrow> unicode \<Rightarrow> nat \<Rightarrow> unicode
     \<Rightarrow> py_error + bytes" where
  "codec_encode name enc1 run errors whole i [] = Inr []"
| "codec_encode name enc1 run errors whole i (c # rest) =
     (case enc1 c of
        Some bs \<Rightarrow>
          (case codec_encode name enc1 run errors whole (i + 1) rest of
             Inl e \<Rightarrow> Inl e | Inr out \<Rightarrow> Inr (bs @ out))
      | None \<Rightarrow>
          if errors = ''strict'' then
            Inl (UnicodeEncodeError name whole i
                   (i + (if run then length (takeWhile (\<lambda>x. enc1 x = None) (c # rest))
                         else 1)))
          else if errors = ''replace'' then
            (case codec_encode name enc1 run errors whole (i + 1) rest of
               Inl e \<Rightarrow> Inl e | Inr out \<Rightarrow> Inr (bytes_of ''?'' @ out))
          else if errors = ''ignore'' then
            codec_encode name enc1 run errors whole (i + 1) rest
          else Inl LookupError)"

text \<open>
  A decoder reads one or two bytes at a time: \<open>dec1\<close> for a single byte, \<open>dec2\<close> for
  a pair when the first byte alone is no character.
\<close>

fun codec_decode ::
  "string \<Rightarrow> (8 word \<Rightarrow> nat option) \<Rightarrow> (8 word \<Rightarrow> 8 word \<Rightarrow> nat option) \<Rightarrow> string
     \<Rightarrow> bytes \<Rightarrow> nat \<Rightarrow> bytes \<Rightarrow> py_error + unicode" where
  "codec_decode name dec1 dec2 errors whole i [] = Inr []"
| "codec_decode name dec1 dec2 errors whole i (b # rest) =
     (case dec1 b of
        Some c \<Rightarrow>
          (case codec_decode name dec1 dec2 errors whole (i + 1) rest of
             Inl e \<Rightarrow> Inl e | Inr out \<Rightarrow> Inr (c # out))
      | None \<Rightarrow>
          (case (case rest of [] \<Rightarrow> None | b2 # _ \<Rightarrow> dec2 b b2) of
             Some c \<Rightarrow>
               (case codec_decode name dec1 dec2 errors whole (i + 2) (drop 1 rest) of
                  Inl e \<Rightarrow> Inl e | Inr out \<Rightarrow> Inr (c # out))
           | None \<Rightarrow>
               if errors = ''strict'' then Inl (UnicodeDecodeError name whole i (i + 1))
               else if errors = ''replace'' then
                 (case codec_decode name dec1 dec2 errors whole (i + 1) rest of
                    Inl e \<Rightarrow> Inl e | Inr out \<Rightarrow> Inr (0xFFFD # out))
               else if errors = ''ignore'' then
                 codec_decode name dec1 dec2 errors whole (i + 1) rest
               else Inl LookupError))"

definition latin_1_enc1 :: "nat \<Rightarrow> bytes option" where
  "latin_1_enc1 c = (if c < 256 then Some [of_nat c] else None)"

definition latin_1_dec1 :: "8 word \<Rightarrow> nat option" where
  "latin_1_dec1 b = Some (unat b)"

definition ascii_enc1 :: "nat \<Rightarrow> bytes option" where
  "ascii_enc1 c = (if c < 128 then Some [of_nat c] else None)"

definition ascii_dec1 :: "8 word \<Rightarrow> nat option" where
  "ascii_dec1 b = (if b < 0x80 then Some (unat b) else None)"

definition shift_jis_enc1 :: "nat \<Rightarrow> bytes option" where
  "shift_jis_enc1 c =
     (if c < 0x80 then Some [of_nat c]
      else if c = 0xA5 then Some [0x5C]
      else if c = 0x203E then Some [0x7E]
      else if 0xFF61 \<le> c \<and> c \<le> 0xFF9F then Some [of_nat (c - 0xFEC0)]
      else if c = 0x30A2 then Some [0x83, 0x41]
      else None)"

definition shift_jis_dec1 :: "8 word \<Rightarrow> nat option" where
  "shift_jis_dec1 b =
     (if b < 0x80 then Some (unat b)
      else if 0xA1 \<le> b \<and> b \<le> 0xDF then Some (0xFEC0 + unat b)
      else None)"

definition shift_jis_dec2 :: "8 word \<Rightarrow> 8 word \<Rightarrow> nat option" where
  "shift_jis_dec2 b b2 = (if b = 0x83 \<and> b2 = 0x41 then Some 0x30A2 else None)"

definition gbk_enc1 :: "nat \<Rightarrow> bytes option" where
  "gbk_enc1 c = (if c < 0x80 then Some [of_nat c] else None)"

definition gbk_dec1 :: "8 word \<Rightarrow> nat option" where
  "gbk_dec1 b = (if b < 0x80 then Some (unat b) else None)"

definition py_codecs :: codecs where
  "py_codecs =
     \<lparr> str_encode = (\<lambda>value encoding errors.
         if CHR 0x00 \<in> set encoding then Inl ValueError
         else if encoding = ''latin_1'' \<or> encoding = ''iso8859'' then
           codec_encode ''latin-1'' latin_1_enc1 True errors value 0 value
         else if encoding = ''ascii'' then
           codec_encode ''ascii'' ascii_enc1 True errors value 0 value
         else if encoding = ''shift_jis'' then
           codec_encode ''shift_jis'' shift_jis_enc1 False errors value 0 value
         else if encoding = ''GBK'' then
           codec_encode ''gbk'' gbk_enc1 False errors value 0 value
         else if encoding = ''undefined'' then Inl UnicodeError
         else Inl LookupError),
       bytes_decode = (\<lambda>value encoding errors.
         if CHR 0x00 \<in> set encoding then Inl ValueError
         else if value = [] then Inr []
         else if encoding = ''latin_1'' \<or> encoding = ''iso8859'' then
           codec_decode ''latin-1'' latin_1_dec1 (\<lambda>b b2. None) errors value 0 value
         else if encoding = ''ascii'' then
           codec_decode ''ascii'' ascii_dec1 (\<lambda>b b2. None) errors value 0 value
         else if encoding = ''shift_jis'' then
           codec_decode ''shift_jis'' shift_jis_dec1 shift_jis_dec2 errors value 0 value
         else if encoding = ''GBK'' then
           codec_decode ''gbk'' gbk_dec1 (\<lambda>b b2. None) errors value 0 value
         else if encoding = ''undefined'' then Inl UnicodeError
         else Inl LookupError),
       codecs_lookup = (\<lambda>encoding.
         if CHR 0x00 \<in> set encoding then Inl ValueError
         else if encoding \<in> set [''latin_1'', ''iso8859'', ''ascii'', ''shift_jis'', ''GBK'',
                                  ''undefined'']
         then Inr ()
         else Inl LookupError) \<rparr>"

text \<open>
  The texts of C5: code points below \<open>0x80\<close> and half-width katakana, with the byte
  each has in the single-byte part of \<open>shift_jis\<close> (JIS X 0201).
\<close>

definition jis_x_0201_byte :: "nat \<Rightarrow> 8 word" where
  "jis_x_0201_byte c = (if c < 0x80 then of_nat c else of_nat (c - 0xFEC0))"

definition ascii_or_katakana :: "nat \<Rightarrow> bool" where
  "ascii_or_katakana c \<longleftrightarrow> c < 0x80 \<or> (0xFF61 \<le> c \<and> c \<le> 0xFF9F)"

section \<open>Properties\<close>

text \<open>Definitions to unfold when a concrete input is evaluated.\<close>

lemmas registry_defs = default_encoding_def ESC_def bytes_of_def text_of_def handled_encodings_def
  need_tail_escape_sequence_encodings_def CODES_TO_ENCODINGS_def CODES_TO_ENCODINGS_items_def
  ENCODINGS_TO_CODES_def
lemmas py_codecs_defs = py_codecs_def latin_1_enc1_def latin_1_dec1_def ascii_enc1_def
  ascii_dec1_def shift_jis_enc1_def shift_jis_dec1_def shift_jis_dec2_def gbk_enc1_def
  gbk_dec1_def

subsection \<open>The first delimiter of a byte string\<close>

lemma find_enumerate_None:
  "find (\<lambda>(index, ch). ch \<in> delimiters) (enumerate n bs) = None
     \<longleftrightarrow> (\<forall>b\<in>set bs. b \<notin> delimiters)"
  by (induction bs arbitrary: n) auto

lemma first_delimiter_None:
  "first_delimiter delimiters bs = None \<longleftrightarrow> (\<forall>b\<in>set bs. b \<notin> delimiters)"
  by (simp add: first_delimiter_def find_enumerate_None)

lemma first_delimiter_Some:
  assumes "i < length bs" "bs ! i \<in> delimiters" "\<forall>j<i. bs ! j \<notin> delimiters"
  shows "first_delimiter delimiters bs = Some i"
proof -
  have "find (\<lambda>(index, ch). ch \<in> delimiters) (enumerate 0 bs) = Some (i, bs ! i)"
    unfolding find_Some_iff
    using assms by (intro exI[of _ i]) (auto simp: nth_enumerate_eq)
  then show ?thesis by (simp add: first_delimiter_def)
qed

text \<open>
  An escape code of the table has four bytes exactly when it starts with \<open>ESC $ (\<close> or
  \<open>ESC $ )\<close>, so the length the decoder computes from a fragment is the length of the
  code the fragment starts with.
\<close>

lemma escape_code_length:
  assumes "CODES_TO_ENCODINGS code = Some encoding"
  shows "(if take 3 (code @ r) = ESC # bytes_of ''$('' \<or> take 3 (code @ r) = ESC # bytes_of ''$)''
          then 4 else 3 :: nat) = length code"
  using assms
  by (auto simp: registry_defs split: if_splits)

lemma escape_code_starts_with_ESC:
  assumes "CODES_TO_ENCODINGS code = Some encoding"
  shows "take 1 (code @ r) = [ESC]"
  using assms
  by (auto simp: registry_defs split: if_splits)

subsection \<open>The fast path of \<open>decode_string\<close>\<close>

text \<open>
  C7, amended. A byte value without the byte \<open>0x1B\<close> is decoded as a whole with the
  first codec of a non-empty list. When that decoding raises \<open>LookupError\<close>, as it does
  for an unknown codec name and a value that is not empty, strict mode raises it and
  lenient mode warns and decodes with the default codec. When it raises a
  \<open>UnicodeError\<close>, strict mode raises it and lenient mode warns and decodes with
  replacement characters: it returns what that decoding returns, and raises what that
  decoding raises.
\<close>

theorem decode_string_without_escape:
  assumes "ESC \<notin> set val"
  shows "(bytes_decode cs val first ''strict'' = Inr t \<longrightarrow>
            decode_string cs strict val (first # rest) delimiters = ([], Inr t))
       \<and> (bytes_decode cs val first ''strict'' = Inl LookupError \<longrightarrow>
            decode_string cs True val (first # rest) delimiters = ([], Inl LookupError)
          \<and> decode_string cs False val (first # rest) delimiters =
              ([Unknown_encoding_using_default first],
               bytes_decode cs val default_encoding ''strict''))
       \<and> (bytes_decode cs val first ''strict'' = Inl e \<and> is_UnicodeError e \<longrightarrow>
            decode_string cs True val (first # rest) delimiters = ([], Inl e)
          \<and> decode_string cs False val (first # rest) delimiters =
              ([Failed_to_decode_with_encoding first],
               bytes_decode cs val first ''replace'')
          \<and> (\<forall>t'. bytes_decode cs val first ''replace'' = Inr t' \<longrightarrow>
                decode_string cs False val (first # rest) delimiters =
                  ([Failed_to_decode_with_encoding first], Inr t')))"
  using assms by (auto simp: decode_string_def)


text \<open>
  The three cases on Python's codecs: \<open>b'HELLO'\<close> with \<open>iso8859\<close>, an unknown codec
  name, and the byte \<open>0xE9\<close>, which is invalid for \<open>ascii\<close>.
\<close>

theorem decode_string_without_escape_witness:
  "decode_string py_codecs True (bytes_of ''HELLO'') [''iso8859''] {} =
     ([], Inr (text_of ''HELLO''))
   \<and> decode_string py_codecs True [0x48] [''no_such_codec''] {} = ([], Inl LookupError)
   \<and> decode_string py_codecs False [0x48] [''no_such_codec''] {} =
       ([Unknown_encoding_using_default ''no_such_codec''], Inr [0x48])
   \<and> decode_string py_codecs True [0x41, 0xE9] [''ascii''] {} =
       ([], Inl (UnicodeDecodeError ''ascii'' [0x41, 0xE9] 1 2))
   \<and> decode_string py_codecs False [0x41, 0xE9] [''ascii''] {} =
       ([Failed_to_decode_with_encoding ''ascii''], Inr [0x41, 0xFFFD])"
  using decode_string_without_escape
          [where val = "bytes_of ''HELLO''" and cs = py_codecs and first = "''iso8859''"
             and t = "text_of ''HELLO''" and strict = True and rest = "[]"
             and delimiters = "{}"]
        decode_string_without_escape
          [where val = "[0x48]" and cs = py_codecs and first = "''no_such_codec''"
             and rest = "[]" and delimiters = "{}"]
        decode_string_without_escape
          [where val = "[0x41, 0xE9]" and cs = py_codecs and first = "''ascii''"
             and rest = "[]" and delimiters = "{}"
             and e = "UnicodeDecodeError ''ascii'' [0x41, 0xE9] 1 2"]
  by (simp add: py_codecs_defs registry_defs)

text \<open>
  C7 as stated fails in two places. The empty value is decoded to the empty text without
  a look at the codec name, so with an unknown name nothing is raised in strict mode and
  no warning is emitted in lenient mode. And the codec \<open>undefined\<close> raises
  \<open>UnicodeError\<close> with every error handler, so in lenient mode the second decoding,
  with replacement characters, raises as well.
\<close>

theorem decode_string_without_escape_counterexample:
  "codecs_lookup py_codecs ''no_such_codec'' = Inl LookupError
   \<and> decode_string py_codecs False [] [''no_such_codec''] {} = ([], Inr [])
   \<and> decode_string py_codecs True [] [''no_such_codec''] {} = ([], Inr [])
   \<and> decode_string py_codecs False [0x61] [''undefined''] {} =
       ([Failed_to_decode_with_encoding ''undefined''], Inl UnicodeError)"
  by (simp add: decode_string_def py_codecs_defs registry_defs)

subsection \<open>Escaped fragments and the delimiter reset\<close>

text \<open>What \<open>_decode_escaped_fragment\<close> does once the escape code is stripped.\<close>

lemma decode_escaped_fragment_stripped:
  assumes "CODES_TO_ENCODINGS code = Some encoding"
      and "encoding \<in> set (first # others) \<or> encoding = default_encoding"
      and "encoding \<notin> set handled_encodings"
  shows "decode_escaped_fragment cs strict (code @ remainder) (first # others) delimiters =
      (case first_delimiter delimiters remainder of
         Some index \<Rightarrow>
           (case bytes_decode cs (take index remainder) encoding ''strict'' of
              Inl e \<Rightarrow> ([], Inl e)
            | Inr t1 \<Rightarrow>
                (case bytes_decode cs (drop index remainder) first ''strict'' of
                   Inl e \<Rightarrow> ([], Inl e)
                 | Inr t2 \<Rightarrow> ([], Inr (t1 @ t2))))
       | None \<Rightarrow> ([], bytes_decode cs remainder encoding ''strict''))"
proof -
  let ?n = "if take 3 (code @ remainder) = ESC # bytes_of ''$(''
               \<or> take 3 (code @ remainder) = ESC # bytes_of ''$)'' then 4 else 3 :: nat"
  have n: "?n = length code"
    using assms(1) by (rule escape_code_length)
  have lookup: "CODES_TO_ENCODINGS (take ?n (code @ remainder)) = Some encoding"
    by (simp only: n) (simp add: assms(1))
  have rest: "drop ?n (code @ remainder) = remainder"
    by (simp only: n) simp
  show ?thesis
    unfolding decode_escaped_fragment_def Let_def lookup rest
    using assms(2,3) by (simp split: option.splits sum.splits)
qed

text \<open>
  C4. Let a fragment start with an escape code of the table whose codec is declared (or
  is the default codec) and is not one of the codecs Python strips the escape codes for.
  The fragment decoder drops the escape code. When no delimiter occurs in the remainder,
  it decodes the remainder with the codec of the escape code. When the first delimiter is
  at index \<open>i\<close>, it decodes the bytes before \<open>i\<close> with the codec of the escape code
  and the bytes from \<open>i\<close> on with the first declared codec, and returns the two texts
  concatenated (or the first exception met). What \<open>_decode_escaped_fragment\<close>
  returns, \<open>_decode_fragment\<close> returns for the fragment.
\<close>

theorem decode_escaped_fragment_delimiter_reset:
  assumes "CODES_TO_ENCODINGS code = Some encoding"
      and "encoding \<in> set (first # others) \<or> encoding = default_encoding"
      and "encoding \<notin> set handled_encodings"
  shows "((\<forall>b\<in>set remainder. b \<notin> delimiters) \<longrightarrow>
            decode_escaped_fragment cs strict (code @ remainder) (first # others) delimiters =
              ([], bytes_decode cs remainder encoding ''strict''))
       \<and> (i < length remainder \<and> remainder ! i \<in> delimiters
            \<and> (\<forall>j<i. remainder ! j \<notin> delimiters) \<longrightarrow>
            decode_escaped_fragment cs strict (code @ remainder) (first # others) delimiters =
              (case bytes_decode cs (take i remainder) encoding ''strict'' of
                 Inl e \<Rightarrow> ([], Inl e)
               | Inr t1 \<Rightarrow>
                   (case bytes_decode cs (drop i remainder) first ''strict'' of
                      Inl e \<Rightarrow> ([], Inl e)
                    | Inr t2 \<Rightarrow> ([], Inr (t1 @ t2)))))
       \<and> (decode_escaped_fragment cs strict (code @ remainder) (first # others) delimiters =
            (ws, Inr t) \<longrightarrow>
          decode_fragment cs strict (code @ remainder) (first # others) delimiters = (ws, Inr t))"
proof -
  note unfold = decode_escaped_fragment_stripped[OF assms, of cs strict remainder delimiters]
  have wrapped: "decode_fragment cs strict (code @ remainder) (first # others) delimiters =
                   (ws, Inr t)"
    if "decode_escaped_fragment cs strict (code @ remainder) (first # others) delimiters =
          (ws, Inr t)"
    using that escape_code_starts_with_ESC[OF assms(1), of remainder]
    by (simp add: decode_fragment_def)
  show ?thesis
    using wrapped
    by (auto simp: unfold first_delimiter_None[THEN iffD2] first_delimiter_Some)
qed

text \<open>
  Half-width katakana after \<open>ESC ) I\<close>, without and with a line feed in between: the byte
  \<open>0xB2\<close> after the line feed is read with \<open>iso8859\<close>.
\<close>

theorem decode_escaped_fragment_delimiter_reset_witness:
  "decode_escaped_fragment py_codecs True (ESC # bytes_of '')I'' @ [0xB1, 0xB2])
      [''iso8859'', ''shift_jis''] {0x0A, 0x0D} = ([], Inr [0xFF71, 0xFF72])
   \<and> decode_escaped_fragment py_codecs True (ESC # bytes_of '')I'' @ [0xB1, 0x0A, 0xB2])
      [''iso8859'', ''shift_jis''] {0x0A, 0x0D} = ([], Inr [0xFF71, 0x0A, 0xB2])
   \<and> decode_fragment py_codecs True (ESC # bytes_of '')I'' @ [0xB1, 0x0A, 0xB2])
      [''iso8859'', ''shift_jis''] {0x0A, 0x0D} = ([], Inr [0xFF71, 0x0A, 0xB2])"
  using decode_escaped_fragment_delimiter_reset
          [where code = "ESC # bytes_of '')I''" and encoding = "''shift_jis''"
             and first = "''iso8859''" and others = "[''shift_jis'']"
             and remainder = "[0xB1, 0xB2]" and delimiters = "{0x0A, 0x0D}" and i = 1
             and cs = py_codecs and strict = True and ws = "[]" and t = "[0xFF71, 0xFF72]"]
        decode_escaped_fragment_delimiter_reset
          [where code = "ESC # bytes_of '')I''" and encoding = "''shift_jis''"
             and first = "''iso8859''" and others = "[''shift_jis'']"
             and remainder = "[0xB1, 0x0A, 0xB2]" and delimiters = "{0x0A, 0x0D}" and i = 1
             and cs = py_codecs and strict = True and ws = "[]" and t = "[0xFF71, 0x0A, 0xB2]"]
  by (simp add: py_codecs_defs registry_defs less_Suc_eq)

subsection \<open>The escape path of \<open>decode_string\<close>\<close>

lemma concat_findall_fragments_False:
  "concat (findall_fragments False v) = dropWhile (\<lambda>x. x \<noteq> ESC) v"
proof (induction "False" v rule: findall_fragments.induct)
  case 1
  show ?case by simp
next
  case (2 c rest)
  show ?case
  proof (cases "c = ESC")
    case True
    with 2 show ?thesis by simp
  next
    case False
    with 2 show ?thesis by simp
  qed
qed

lemma concat_findall_fragments_True: "concat (findall_fragments True v) = v"
proof (cases v)
  case Nil
  then show ?thesis by simp
next
  case (Cons c rest)
  then show ?thesis
    by (simp add: concat_findall_fragments_False)
qed

lemma esc_notin_takeWhile: "ESC \<notin> set (takeWhile (\<lambda>x. x \<noteq> ESC) xs)"
  by (auto dest: set_takeWhileD)

lemma findall_fragments_shape:
  "\<forall>f\<in>set (findall_fragments a v). f \<noteq> [] \<and> ESC \<notin> set (tl f) \<and> (\<not> a \<longrightarrow> hd f = ESC)"
  by (induction a v rule: findall_fragments.induct) (auto simp: esc_notin_takeWhile)

lemma findall_fragments_True_tl:
  "\<forall>f\<in>set (tl (findall_fragments True v)). hd f = ESC"
  using findall_fragments_shape[of False]
  by (cases v) auto

lemma decode_fragments_all_ok:
  "map (\<lambda>f. decode_fragment cs strict f encodings delimiters) fs = map (\<lambda>(ws, t). (ws, Inr t)) rs
   \<Longrightarrow> decode_fragments cs strict fs encodings delimiters =
         (concat (map fst rs), Inr (map snd rs))"
  by (induction fs arbitrary: rs) (auto split: prod.splits)

lemma decode_fragments_first_error:
  "map (\<lambda>f. decode_fragment cs strict f encodings delimiters) (take k fs) =
      map (\<lambda>(ws, t). (ws, Inr t)) rs
   \<Longrightarrow> k < length fs
   \<Longrightarrow> decode_fragment cs strict (fs ! k) encodings delimiters = (ws, Inl e)
   \<Longrightarrow> decode_fragments cs strict fs encodings delimiters =
         (concat (map fst rs) @ ws, Inl e)"
proof (induction fs arbitrary: rs k)
  case Nil
  then show ?case by simp
next
  case (Cons f fs)
  show ?case
  proof (cases k)
    case 0
    with Cons.prems show ?thesis by simp
  next
    case (Suc k')
    with Cons.prems obtain r rs' where rs: "rs = r # rs'"
      by (cases rs) auto
    with Cons.prems Suc have
      "decode_fragments cs strict fs encodings delimiters = (concat (map fst rs') @ ws, Inl e)"
      by (intro Cons.IH[of k']) auto
    with Cons.prems Suc rs show ?thesis
      by (auto split: prod.splits)
  qed
qed

lemma count_list_dropWhile_neq:
  "count_list (dropWhile (\<lambda>x. x \<noteq> c) xs) c = count_list xs c"
  by (induction xs) auto

lemma count_findall_fragments:
  "length (filter (\<lambda>f. hd f = ESC) (findall_fragments a v)) = count_list v ESC"
  by (induction a v rule: findall_fragments.induct) (auto simp: count_list_dropWhile_neq)

text \<open>
  C8. A byte value with an escape byte is split into fragments whose concatenation, in
  order, is the value: no fragment is empty, every fragment after the first starts with
  the escape byte, no fragment holds an escape byte after its first byte, and there is one
  fragment starting with the escape byte for each escape byte of the value. (So the first
  fragment is the maximal run before the first escape byte, and is absent when that run
  is empty; every other fragment runs from an escape byte up to the next one.) The result
  of \<open>decode_string\<close> is the concatenation, in order, of the texts the fragments decode
  to, with their warnings in order; when a fragment raises, the exception of the first
  such fragment is raised.
\<close>

theorem decode_string_escape_fragments:
  assumes "ESC \<in> set val"
  shows "concat (findall_fragments True val) = val
       \<and> (\<forall>f\<in>set (findall_fragments True val). f \<noteq> [] \<and> ESC \<notin> set (tl f))
       \<and> (\<forall>f\<in>set (tl (findall_fragments True val)). hd f = ESC)
       \<and> length (filter (\<lambda>f. hd f = ESC) (findall_fragments True val)) = count_list val ESC
       \<and> (map (\<lambda>f. decode_fragment cs strict f encodings delimiters) (findall_fragments True val)
             = map (\<lambda>(ws, t). (ws, Inr t)) rs \<longrightarrow>
           decode_string cs strict val encodings delimiters =
             (concat (map fst rs), Inr (concat (map snd rs))))
       \<and> (k < length (findall_fragments True val)
           \<and> map (\<lambda>f. decode_fragment cs strict f encodings delimiters)
                 (take k (findall_fragments True val)) = map (\<lambda>(ws, t). (ws, Inr t)) rs
           \<and> decode_fragment cs strict (findall_fragments True val ! k) encodings delimiters
                = (ws, Inl e) \<longrightarrow>
           decode_string cs strict val encodings delimiters =
             (concat (map fst rs) @ ws, Inl e))"
proof -
  let ?fs = "findall_fragments True val"
  have shape: "\<forall>f\<in>set ?fs. f \<noteq> [] \<and> ESC \<notin> set (tl f)"
    using findall_fragments_shape[of True val] by simp
  have unfold: "decode_string cs strict val encodings delimiters =
      (case decode_fragments cs strict ?fs encodings delimiters of
         (ws, Inl e) \<Rightarrow> (ws, Inl e)
       | (ws, Inr ts) \<Rightarrow> (ws, Inr (concat ts)))"
    using assms by (simp add: decode_string_def)
  have ok: "decode_string cs strict val encodings delimiters =
               (concat (map fst rs), Inr (concat (map snd rs)))"
    if "map (\<lambda>f. decode_fragment cs strict f encodings delimiters) ?fs
          = map (\<lambda>(ws, t). (ws, Inr t)) rs"
    using decode_fragments_all_ok[OF that] by (simp add: unfold)
  have err: "decode_string cs strict val encodings delimiters =
               (concat (map fst rs) @ ws, Inl e)"
    if "k < length ?fs"
       "map (\<lambda>f. decode_fragment cs strict f encodings delimiters) (take k ?fs)
          = map (\<lambda>(ws, t). (ws, Inr t)) rs"
       "decode_fragment cs strict (?fs ! k) encodings delimiters = (ws, Inl e)"
    using decode_fragments_first_error[OF that(2,1,3)] by (simp add: unfold)
  show ?thesis
    using shape ok err
    by (simp add: concat_findall_fragments_True findall_fragments_True_tl
        count_findall_fragments)
qed

text \<open>
  \<open>b'ab' + ESC + b')I\xb1' + ESC + b'(Bc'\<close> has three fragments; with an escape code
  of a codec that is not declared, strict mode raises at the second fragment.
\<close>

theorem decode_string_escape_fragments_witness:
  "findall_fragments True [0x61, 0x62, 0x1B, 0x29, 0x49, 0xB1, 0x1B, 0x28, 0x42, 0x63]
     = [[0x61, 0x62], [0x1B, 0x29, 0x49, 0xB1], [0x1B, 0x28, 0x42, 0x63]]
   \<and> decode_string py_codecs True [0x61, 0x62, 0x1B, 0x29, 0x49, 0xB1, 0x1B, 0x28, 0x42, 0x63]
         [''iso8859'', ''shift_jis''] {} = ([], Inr [0x61, 0x62, 0xFF71, 0x63])
   \<and> decode_string py_codecs True [0x61, 0x62, 0x1B, 0x2D, 0x41, 0xB1]
         [''iso8859'', ''shift_jis''] {} = ([], Inl ValueError)"
proof -
  let ?v = "[0x61, 0x62, 0x1B, 0x29, 0x49, 0xB1, 0x1B, 0x28, 0x42, 0x63] :: bytes"
  let ?w = "[0x61, 0x62, 0x1B, 0x2D, 0x41, 0xB1] :: bytes"
  let ?encodings = "[''iso8859'', ''shift_jis'']"
  have fs: "findall_fragments True ?v
              = [[0x61, 0x62], [0x1B, 0x29, 0x49, 0xB1], [0x1B, 0x28, 0x42, 0x63]]"
    by (simp add: ESC_def)
  have gs: "findall_fragments True ?w = [[0x61, 0x62], [0x1B, 0x2D, 0x41, 0xB1]]"
    by (simp add: ESC_def)
  have d1: "decode_fragment py_codecs True [0x61, 0x62] ?encodings {} = ([], Inr [0x61, 0x62])"
    by (simp add: decode_fragment_def py_codecs_defs registry_defs)
  have d2: "decode_fragment py_codecs True [0x1B, 0x29, 0x49, 0xB1] ?encodings {}
              = ([], Inr [0xFF71])"
    by (simp add: decode_fragment_def decode_escaped_fragment_def first_delimiter_def
        py_codecs_defs registry_defs)
  have d3: "decode_fragment py_codecs True [0x1B, 0x28, 0x42, 0x63] ?encodings {}
              = ([], Inr [0x63])"
    by (simp add: decode_fragment_def decode_escaped_fragment_def first_delimiter_def
        py_codecs_defs registry_defs)
  have d4: "decode_fragment py_codecs True [0x1B, 0x2D, 0x41, 0xB1] ?encodings {}
              = ([], Inl ValueError)"
    by (simp add: decode_fragment_def decode_escaped_fragment_def first_delimiter_def
        py_codecs_defs registry_defs)
  have e1: "ESC \<in> set ?v" and e2: "ESC \<in> set ?w"
    by (simp_all add: ESC_def)
  have r1: "decode_string py_codecs True ?v ?encodings {} = ([], Inr [0x61, 0x62, 0xFF71, 0x63])"
    using decode_string_escape_fragments
            [where val = ?v and cs = py_codecs and strict = True
               and encodings = ?encodings and delimiters = "{}"
               and rs = "[([], [0x61, 0x62]), ([], [0xFF71]), ([], [0x63])]",
             OF e1, THEN conjunct2, THEN conjunct2, THEN conjunct2, THEN conjunct2,
             THEN conjunct1]
    by (simp add: fs d1 d2 d3 del: findall_fragments.simps)
  have r2: "decode_string py_codecs True ?w ?encodings {} = ([], Inl ValueError)"
    using decode_string_escape_fragments
            [where val = ?w and cs = py_codecs and strict = True
               and encodings = ?encodings and delimiters = "{}"
               and rs = "[([], [0x61, 0x62])]" and k = 1 and ws = "[]" and e = ValueError,
             OF e2, THEN conjunct2, THEN conjunct2, THEN conjunct2, THEN conjunct2,
             THEN conjunct2]
    by (simp add: gs d1 d4 del: findall_fragments.simps)
  show ?thesis
    using fs r1 r2 by simp
qed

subsection \<open>The single-byte Japanese encoder\<close>

lemma dropWhile_snoc:
  "dropWhile P (xs @ [x]) =
     (if \<forall>y\<in>set xs. P y then dropWhile P [x] else dropWhile P xs @ [x])"
  by (induction xs) auto

lemma encode_to_jis_x_0201_loop_result:
  assumes "\<forall>c\<in>set xs. str_encode cs [c] ''shift_jis'' errors = Inr (enc c)"
  shows "encode_to_jis_x_0201_loop cs errors (enumerate n xs) buf start end =
           Inr (buf @ concat (map (\<lambda>c. if length (enc c) = 1 then enc c else bytes_of ''?'') xs),
                (if \<forall>c\<in>set xs. length (enc c) = 1 then start
                 else min start (n + length (takeWhile (\<lambda>c. length (enc c) = 1) xs))),
                (if \<forall>c\<in>set xs. length (enc c) = 1 then end
                 else max end (n + length (dropWhile (\<lambda>c. length (enc c) = 1) (rev xs)))))"
  using assms
proof (induction xs arbitrary: n buf start "end")
  case Nil
  then show ?case by simp
next
  case (Cons x xs)
  then have x: "str_encode cs [x] ''shift_jis'' errors = Inr (enc x)"
    and xs: "\<forall>c\<in>set xs. str_encode cs [c] ''shift_jis'' errors = Inr (enc c)"
    by simp_all
  show ?case
  proof (cases "length (enc x) = 1")
    case True
    then show ?thesis
      using x Cons.IH[OF xs, of "Suc n"]
      by (simp add: dropWhile_snoc)
  next
    case False
    show ?thesis
    proof (cases "\<forall>c\<in>set xs. length (enc c) = 1")
      case True
      with False show ?thesis
        using x Cons.IH[OF xs, of "Suc n"]
        by (simp add: dropWhile_snoc)
    next
      case allno: False
      have m: "max (max end (Suc n)) (Suc (n + k)) = max end (Suc (n + k))" for k
        by simp
      from allno False show ?thesis
        using x Cons.IH[OF xs, of "Suc n"]
        by (auto simp: dropWhile_snoc m)
    qed
  qed
qed

text \<open>
  Where \<open>shift_jis\<close> encodes every character of the text by itself under the given
  \<open>errors\<close> value, to \<open>enc c\<close>, the encoder does what C9 says: with
  \<open>errors = 'strict'\<close> and some character whose encoding is not exactly one byte, it
  raises \<open>UnicodeEncodeError\<close> on the whole text with the range from the first such
  character to just after the last one; otherwise it returns the text encoded character
  by character, each such character replaced by the byte \<open>?\<close>.
\<close>

lemma encode_to_jis_x_0201_range:
  assumes "\<forall>c\<in>set val. str_encode cs [c] ''shift_jis'' errors = Inr (enc c)"
  shows "(errors = ''strict'' \<and> (\<exists>c\<in>set val. length (enc c) \<noteq> 1) \<longrightarrow>
            encode_to_jis_x_0201 cs val errors =
              Inl (UnicodeEncodeError ''shift_jis'' val
                     (length (takeWhile (\<lambda>c. length (enc c) = 1) val))
                     (length (dropWhile (\<lambda>c. length (enc c) = 1) (rev val)))))
       \<and> (errors \<noteq> ''strict'' \<or> (\<forall>c\<in>set val. length (enc c) = 1) \<longrightarrow>
            encode_to_jis_x_0201 cs val errors =
              Inr (concat (map (\<lambda>c. if length (enc c) = 1 then enc c else bytes_of ''?'') val)))"
proof -
  let ?ok = "\<lambda>c. length (enc c) = 1"
  have tw: "length (takeWhile ?ok val) < length val" if "\<exists>c\<in>set val. \<not> ?ok c"
  proof -
    have "takeWhile ?ok val \<noteq> val"
      using that by (simp add: takeWhile_eq_all_conv)
    moreover have "length (takeWhile ?ok val) \<le> length val"
      by (rule length_takeWhile_le)
    moreover have "val = takeWhile ?ok val @ dropWhile ?ok val"
      by simp
    ultimately show ?thesis
      by (metis append_self_conv le_neq_implies_less length_append add_cancel_right_right
          length_0_conv)
  qed
  have dw: "0 < length (dropWhile ?ok (rev val))" if "\<exists>c\<in>set val. \<not> ?ok c"
    using that by (simp add: dropWhile_eq_Nil_conv)
  show ?thesis
  proof (cases "\<forall>c\<in>set val. ?ok c")
    case True
    then show ?thesis
      unfolding encode_to_jis_x_0201_def encode_to_jis_x_0201_loop_result[OF assms]
      by simp
  next
    case False
    then have "\<exists>c\<in>set val. \<not> ?ok c" by simp
    from tw[OF this] dw[OF this] False show ?thesis
      unfolding encode_to_jis_x_0201_def encode_to_jis_x_0201_loop_result[OF assms]
      by (auto simp: min_def)
  qed
qed


text \<open>
  \<open>U+30A2\<close> takes two bytes in \<open>shift_jis\<close>: in \<open>'a\u30a2b\u30a2c'\<close> the range is
  \<open>[1, 4)\<close>.
\<close>

lemma encode_to_jis_x_0201_range_example:
  "encode_to_jis_x_0201 py_codecs [0x61, 0x30A2, 0x62, 0x30A2, 0x63] ''strict'' =
     Inl (UnicodeEncodeError ''shift_jis'' [0x61, 0x30A2, 0x62, 0x30A2, 0x63] 1 4)
   \<and> encode_to_jis_x_0201 py_codecs [0x61, 0x30A2, 0x62, 0x30A2, 0x63] ''replace'' =
     Inr (bytes_of ''a?b?c'')"
  using encode_to_jis_x_0201_range
          [where val = "[0x61, 0x30A2, 0x62, 0x30A2, 0x63]" and cs = py_codecs
             and errors = "''strict''"
             and enc = "\<lambda>c. case shift_jis_enc1 c of Some bs \<Rightarrow> bs | None \<Rightarrow> []"]
        encode_to_jis_x_0201_range
          [where val = "[0x61, 0x30A2, 0x62, 0x30A2, 0x63]" and cs = py_codecs
             and errors = "''replace''"
             and enc = "\<lambda>c. case shift_jis_enc1 c of Some bs \<Rightarrow> bs | None \<Rightarrow> []"]
  by (simp add: py_codecs_defs registry_defs)

text \<open>
  C9 says that with \<open>errors = 'strict'\<close> the error raised has a range in the whole
  text, from the first to the last character that does not fit in one byte; the loop
  collects that range, and \<open>_encode_string_parts\<close> reads \<open>e.start\<close> as the index of
  the first character that failed. But the loop encodes each character with the same
  \<open>errors\<close> value, so on a character that \<open>shift_jis\<close> cannot encode at all the
  strict encoding of that one character raises by itself: on \<open>'a\u30a2\xe9'\<close>, where
  \<open>U+30A2\<close> takes two bytes and \<open>U+00E9\<close> has no encoding, the error is about the
  one-character string \<open>'\xe9'\<close> with the range \<open>[0, 1)\<close>, and not about the text
  with a range that starts at index 1. For the same reason the partition pass finds no
  prefix of \<open>'\uff71\xe9'\<close> that \<open>shift_jis\<close> can encode, and gives up.
\<close>

theorem encode_to_jis_x_0201_unencodable_range:
  "str_encode py_codecs [0x30A2] ''shift_jis'' ''strict'' = Inr [0x83, 0x41]
   \<and> encode_to_jis_x_0201 py_codecs [0x61, 0x30A2, 0xE9] ''strict'' =
       Inl (UnicodeEncodeError ''shift_jis'' [0xE9] 0 1)
   \<and> encode_to_jis_x_0201 py_codecs [0x61, 0x30A2, 0xE9] ''strict'' \<noteq>
       Inl (UnicodeEncodeError ''shift_jis'' [0x61, 0x30A2, 0xE9] 1 2)
   \<and> encode_to_jis_x_0201 py_codecs [0xFF71, 0xE9] ''strict'' =
       Inl (UnicodeEncodeError ''shift_jis'' [0xE9] 0 1)
   \<and> encode_string_parts py_codecs [0xFF71, 0xE9] [''iso8859'', ''shift_jis''] = Inl ValueError"
  by (simp add: encode_to_jis_x_0201_def encode_string_parts_def encode_string_impl_def
      custom_encoders_def enumerate_eq_zip py_codecs_defs registry_defs)

subsection \<open>The encoder\<close>

lemmas encode_defs = encode_string_def encode_string_impl_def custom_encoders_def
  encode_to_jis_x_0201_def encode_to_jis_x_0208_def get_escape_sequence_to_alphanumeric_def
  enumerate_eq_zip

text \<open>
  C2 says that in strict mode a text that no declared codec can encode makes
  \<open>encode_string\<close> raise the encode failure of the first codec. The code re-raises
  with \<open>value.encode(encodings[0])\<close>, Python's own codec, while the passes before used
  the module's encoder of that codec. For \<open>shift_jis\<close> the two differ: the module's
  encoder refuses \<open>U+30A2\<close>, which takes two bytes, and Python's codec encodes it. So
  on \<open>'\u30a2'\<close> with \<open>['shift_jis']\<close> nothing is raised in strict mode, and the call
  warns and returns the replacement character \<open>?\<close>.
\<close>

theorem encode_string_strict_replacement:
  "encode_string_impl py_codecs [0x30A2] ''shift_jis'' ''strict'' =
     Inl (UnicodeEncodeError ''shift_jis'' [0x30A2] 0 1)
   \<and> str_encode py_codecs [0x30A2] ''shift_jis'' ''strict'' = Inr [0x83, 0x41]
   \<and> encode_string py_codecs True [0x30A2] [''shift_jis''] =
       ([Failed_to_encode_with_encodings [''shift_jis'']], Inr (bytes_of ''?''))"
  by (simp add: encode_defs py_codecs_defs registry_defs)





subsection \<open>ASCII and half-width katakana with \<open>[default, shift_jis]\<close>\<close>

lemma unat_byte_of_nat: "n < 256 \<Longrightarrow> unat (of_nat n :: 8 word) = n"
  by (simp add: unat_of_nat)

lemma byte_of_nat_less: "n < 256 \<Longrightarrow> (of_nat n :: 8 word) < 0x80 \<longleftrightarrow> n < 128"
  by (simp add: word_less_nat_alt unat_byte_of_nat)

lemma byte_of_nat_le1: "n < 256 \<Longrightarrow> (0xA1 :: 8 word) \<le> of_nat n \<longleftrightarrow> 161 \<le> n"
  by (simp add: word_le_nat_alt unat_byte_of_nat)

lemma byte_of_nat_le2: "n < 256 \<Longrightarrow> (of_nat n :: 8 word) \<le> 0xDF \<longleftrightarrow> n \<le> 223"
  by (simp add: word_le_nat_alt unat_byte_of_nat)

lemma byte_of_nat_eq_ESC: "n < 256 \<Longrightarrow> (of_nat n :: 8 word) = ESC \<longleftrightarrow> n = 27"
proof -
  assume n: "n < 256"
  have "(of_nat n :: 8 word) = ESC \<longleftrightarrow> unat (of_nat n :: 8 word) = unat ESC"
    by (simp only: word_unat_eq_iff)
  with n show ?thesis by (simp add: unat_byte_of_nat ESC_def)
qed

lemma shift_jis_dec1_ascii: "c < 0x80 \<Longrightarrow> shift_jis_dec1 (of_nat c) = Some c"
  by (simp add: shift_jis_dec1_def byte_of_nat_less unat_byte_of_nat)

lemma shift_jis_dec1_katakana:
  assumes "0xFF61 \<le> c" "c \<le> 0xFF9F"
  shows "shift_jis_dec1 (of_nat (c - 0xFEC0)) = Some c"
proof -
  from assms have n: "c - 0xFEC0 < 256" "161 \<le> c - 0xFEC0" "c - 0xFEC0 \<le> 223"
    "\<not> c - 0xFEC0 < 128" "0xFEC0 + (c - 0xFEC0) = c"
    by simp_all
  show ?thesis
    unfolding shift_jis_dec1_def
    by (simp only: byte_of_nat_less[OF n(1)] byte_of_nat_le1[OF n(1)] byte_of_nat_le2[OF n(1)]
        unat_byte_of_nat[OF n(1)] n if_False if_True simp_thms)
qed


lemma shift_jis_enc1_domain:
  "ascii_or_katakana c \<Longrightarrow> shift_jis_enc1 c = Some [jis_x_0201_byte c]"
  by (auto simp: ascii_or_katakana_def shift_jis_enc1_def jis_x_0201_byte_def)

lemma shift_jis_dec1_domain:
  assumes "ascii_or_katakana c"
  shows "shift_jis_dec1 (jis_x_0201_byte c) = Some c"
proof (cases "c < 0x80")
  case True
  then show ?thesis by (simp add: jis_x_0201_byte_def shift_jis_dec1_ascii)
next
  case False
  with assms have k: "0xFF61 \<le> c" "c \<le> 0xFF9F"
    by (auto simp: ascii_or_katakana_def)
  have "jis_x_0201_byte c = of_nat (c - 0xFEC0)"
    unfolding jis_x_0201_byte_def using False by (simp only: if_False)
  with shift_jis_dec1_katakana[OF k] show ?thesis by (simp only:)
qed

lemma jis_x_0201_byte_ESC:
  assumes "ascii_or_katakana c"
  shows "jis_x_0201_byte c = ESC \<longleftrightarrow> c = 0x1B"
proof (cases "c < 0x80")
  case True
  then show ?thesis by (simp add: jis_x_0201_byte_def byte_of_nat_eq_ESC)
next
  case False
  with assms have "c - 0xFEC0 < 256" "c - 0xFEC0 \<noteq> 27" "c \<noteq> 27"
    by (auto simp: ascii_or_katakana_def)
  have "jis_x_0201_byte c = of_nat (c - 0xFEC0)"
    unfolding jis_x_0201_byte_def using False by (simp only: if_False)
  with byte_of_nat_eq_ESC[OF \<open>c - 0xFEC0 < 256\<close>] \<open>c - 0xFEC0 \<noteq> 27\<close> \<open>c \<noteq> 27\<close>
  show ?thesis by (simp only: simp_thms)
qed

lemma shift_jis_decode_domain:
  "\<forall>c\<in>set xs. ascii_or_katakana c \<Longrightarrow>
   codec_decode name shift_jis_dec1 dec2 ''strict'' whole i (map jis_x_0201_byte xs) = Inr xs"
  by (induction xs arbitrary: i) (simp_all add: shift_jis_dec1_domain)

lemma codec_encode_strict_fails:
  "\<exists>c\<in>set xs. enc1 c = None \<Longrightarrow>
   \<exists>e. codec_encode name enc1 run ''strict'' whole i xs = Inl e \<and> is_UnicodeError e"
proof (induction xs arbitrary: i)
  case Nil
  then show ?case by simp
next
  case (Cons x xs)
  show ?case
  proof (cases "enc1 x")
    case None
    then show ?thesis by simp
  next
    case (Some bs)
    with Cons.prems have "\<exists>c\<in>set xs. enc1 c = None" by auto
    from Cons.IH[OF this, of "i + 1"] Some show ?thesis by auto
  qed
qed

lemma encode_to_jis_x_0201_domain:
  assumes "\<forall>c\<in>set val. ascii_or_katakana c"
  shows "encode_to_jis_x_0201 py_codecs val ''strict'' = Inr (map jis_x_0201_byte val)"
proof -
  have one: "\<forall>c\<in>set val. str_encode py_codecs [c] ''shift_jis'' ''strict'' =
               Inr [jis_x_0201_byte c]"
    using assms by (simp add: py_codecs_def shift_jis_enc1_domain)
  have "concat (map (\<lambda>c. [jis_x_0201_byte c]) val) = map jis_x_0201_byte val"
    by (induction val) simp_all
  then show ?thesis
    unfolding encode_to_jis_x_0201_def encode_to_jis_x_0201_loop_result[OF one]
    by simp
qed

lemma findall_fragments_single:
  assumes "ESC \<notin> set rest"
  shows "findall_fragments True (ESC # rest) = [ESC # rest]"
proof -
  from assms have t: "takeWhile (\<lambda>x. x \<noteq> ESC) rest = rest"
    and d: "dropWhile (\<lambda>x. x \<noteq> ESC) rest = []"
    by auto
  show ?thesis by (simp add: t d)
qed


text \<open>
  C5, amended. Let a text hold only code points below \<open>0x80\<close> and half-width katakana,
  and at least one katakana. With the codecs \<open>[default, shift_jis]\<close> the whole text is
  encoded by \<open>shift_jis\<close> in the first pass, so \<open>encode_string\<close> returns the escape
  code \<open>ESC ) I\<close> followed by the single bytes of the characters: the escape code comes
  first, before the ASCII run. When the text holds no \<open>U+001B\<close> and no character whose
  byte is a delimiter, no other escape byte follows, and decoding these bytes with the
  same codecs returns the text.
\<close>

theorem encode_string_ascii_katakana:
  assumes "\<forall>c\<in>set val. ascii_or_katakana c"
      and "\<exists>c\<in>set val. \<not> c < 0x80"
  shows "encode_string py_codecs strict val [default_encoding, ''shift_jis''] =
           ([], Inr (ESC # bytes_of '')I'' @ map jis_x_0201_byte val))
       \<and> (0x1B \<notin> set val \<and> (\<forall>c\<in>set val. jis_x_0201_byte c \<notin> delimiters) \<longrightarrow>
            ESC \<notin> set (map jis_x_0201_byte val)
            \<and> decode_string py_codecs strict' (ESC # bytes_of '')I'' @ map jis_x_0201_byte val)
                 [default_encoding, ''shift_jis''] delimiters = ([], Inr val))"
proof -
  let ?bs = "map jis_x_0201_byte val"
  let ?encodings = "[default_encoding, ''shift_jis'']"
  from assms(2) obtain k where k: "k \<in> set val" "\<not> k < 0x80"
    by blast
  with assms(1) have "\<not> k < 256"
    by (auto simp: ascii_or_katakana_def)
  with k(1) have "\<exists>c\<in>set val. latin_1_enc1 c = None"
    by (auto simp: latin_1_enc1_def)
  from codec_encode_strict_fails[OF this, of "''latin-1''" True val 0] obtain e where
    e: "codec_encode ''latin-1'' latin_1_enc1 True ''strict'' val 0 val = Inl e"
       "is_UnicodeError e"
    by blast
  have first: "encode_string_impl py_codecs val default_encoding ''strict'' = Inl e"
    using e(1)
    by (simp add: encode_string_impl_def custom_encoders_def py_codecs_def default_encoding_def)
  have second: "encode_string_impl py_codecs val ''shift_jis'' ''strict'' = Inr ?bs"
    using encode_to_jis_x_0201_domain[OF assms(1)]
    by (simp add: encode_string_impl_def custom_encoders_def)
  have code: "ENCODINGS_TO_CODES ''shift_jis'' = Some (ESC # bytes_of '')I'')"
    by (simp add: ENCODINGS_TO_CODES_def)
  have enc: "encode_string py_codecs strict val ?encodings =
               ([], Inr (ESC # bytes_of '')I'' @ ?bs))"
    using first second e(2) code
    by (simp add: encode_string_def handled_encodings_def
        need_tail_escape_sequence_encodings_def)
  have dec: "ESC \<notin> set ?bs
               \<and> decode_string py_codecs strict' (ESC # bytes_of '')I'' @ ?bs) ?encodings delimiters
                   = ([], Inr val)"
    if no_escape: "0x1B \<notin> set val"
      and no_delimiter: "\<forall>c\<in>set val. jis_x_0201_byte c \<notin> delimiters"
  proof -
    have noesc: "ESC \<notin> set ?bs"
    proof
      assume "ESC \<in> set ?bs"
      then obtain x where x: "x \<in> set val" "jis_x_0201_byte x = ESC"
        by auto
      with assms(1) have "x = 0x1B"
        by (simp add: jis_x_0201_byte_ESC)
      with x(1) no_escape show False by simp
    qed
    then have noesc': "ESC \<notin> set (bytes_of '')I'' @ ?bs)"
      by (simp add: bytes_of_def ESC_def)
    have frag: "decode_escaped_fragment py_codecs strict' ((ESC # bytes_of '')I'') @ ?bs)
                  ?encodings delimiters
                  = ([], bytes_decode py_codecs ?bs ''shift_jis'' ''strict'')"
      using no_delimiter
      by (subst decode_escaped_fragment_stripped[where encoding = "''shift_jis''"])
         (simp_all add: registry_defs first_delimiter_None[THEN iffD2])
    have "bytes_decode py_codecs ?bs ''shift_jis'' ''strict'' = Inr val"
      using shift_jis_decode_domain[OF assms(1)] by (simp add: py_codecs_def)
    with frag have "decode_fragment py_codecs strict' (ESC # bytes_of '')I'' @ ?bs)
                      ?encodings delimiters = ([], Inr val)"
      by (simp add: decode_fragment_def)
    then have "decode_string py_codecs strict' (ESC # bytes_of '')I'' @ ?bs) ?encodings
                 delimiters = ([], Inr val)"
      using findall_fragments_single[OF noesc']
      by (simp add: decode_string_def del: findall_fragments.simps)
    with noesc show ?thesis by simp
  qed
  from enc dec show ?thesis by blast
qed

text \<open>\<open>'AB'\<close> followed by two half-width katakana.\<close>

theorem encode_string_ascii_katakana_witness:
  "encode_string py_codecs True [0x41, 0x42, 0xFF71, 0xFF72] [default_encoding, ''shift_jis''] =
     ([], Inr [0x1B, 0x29, 0x49, 0x41, 0x42, 0xB1, 0xB2])
   \<and> decode_string py_codecs True [0x1B, 0x29, 0x49, 0x41, 0x42, 0xB1, 0xB2]
       [default_encoding, ''shift_jis''] {0x0A, 0x0D} = ([], Inr [0x41, 0x42, 0xFF71, 0xFF72])"
  using encode_string_ascii_katakana
          [where val = "[0x41, 0x42, 0xFF71, 0xFF72]" and delimiters = "{0x0A, 0x0D}"
             and strict = True and strict' = True]
  by (simp add: ascii_or_katakana_def jis_x_0201_byte_def ESC_def bytes_of_def)

text \<open>
  C5 as stated fails on \<open>'A\uff71'\<close>: the output starts with the escape code and not
  with the byte of \<open>A\<close>, in both modes.
\<close>

theorem encode_string_ascii_katakana_counterexample:
  "encode_string py_codecs False [0x41, 0xFF71] [default_encoding, ''shift_jis''] =
     ([], Inr [0x1B, 0x29, 0x49, 0x41, 0xB1])
   \<and> encode_string py_codecs True [0x41, 0xFF71] [default_encoding, ''shift_jis''] =
     ([], Inr [0x1B, 0x29, 0x49, 0x41, 0xB1])
   \<and> take 1 [0x1B, 0x29, 0x49, 0x41, 0xB1 :: 8 word] \<noteq> [0x41]"
  by (simp add: encode_defs py_codecs_defs registry_defs)

subsection \<open>Identifier resolution on valid codec names\<close>

lemmas resolve_defs = convert_encodings_def handle_illegal_standalone_encodings_def
  python_encoding_for_corrected_encoding_def warn_about_invalid_encoding_def
  matches_ISO_IR_def matches_ISO_2022_IR_def python_encoding_def python_encoding_items_def
  STAND_ALONE_ENCODINGS_def default_encoding_def enumerate_eq_zip

lemma delete_standalone_encodings_none:
  "\<forall>(i, e)\<in>set ps. e \<notin> set STAND_ALONE_ENCODINGS \<Longrightarrow>
   delete_standalone_encodings ps py = ([], Inr py)"
  by (induction ps arbitrary: py) auto

lemma resolve_encodings_unchanged:
  assumes "\<forall>e\<in>set xs. codecs_lookup cs e = Inr () \<and> (python_encoding e = None \<or> python_encoding e = Some e)
             \<and> (python_encoding e = None \<longrightarrow> \<not> matches_ISO_IR e \<and> \<not> matches_ISO_2022_IR e)"
  shows "resolve_encodings cs strict xs py = ([], Inr (py @ xs))"
  using assms
proof (induction xs arbitrary: py)
  case Nil
  then show ?case by simp
next
  case (Cons x xs)
  then have x: "codecs_lookup cs x = Inr ()" "python_encoding x = None \<or> python_encoding x = Some x"
      "python_encoding x = None \<longrightarrow> \<not> matches_ISO_IR x \<and> \<not> matches_ISO_2022_IR x"
    and xs: "\<forall>e\<in>set xs. codecs_lookup cs e = Inr () \<and> (python_encoding e = None \<or> python_encoding e = Some e)
             \<and> (python_encoding e = None \<longrightarrow> \<not> matches_ISO_IR e \<and> \<not> matches_ISO_2022_IR e)"
    by simp_all
  from x(2) show ?case
  proof
    assume n: "python_encoding x = None"
    with x(1,3) have "python_encoding_for_corrected_encoding cs strict x = ([], Inr x)"
      by (simp add: python_encoding_for_corrected_encoding_def)
    with n Cons.IH[OF xs, of "py @ [x]"] show ?thesis by simp
  next
    assume "python_encoding x = Some x"
    with Cons.IH[OF xs, of "py @ [x]"] show ?thesis by simp
  qed
qed

text \<open>
  C6, amended. Let a non-empty list hold valid concrete codec names, each of which is
  either no identifier of the table \<open>python_encoding\<close> or one the table maps to
  itself, and, when it is no identifier of the table, matches neither of the two
  misspelling patterns; and let a list of more than one name hold no stand-alone
  encoding. Then \<open>convert_encodings\<close> returns the list unchanged, without a warning, in
  both modes.
\<close>

theorem convert_encodings_fixed_point:
  assumes "encodings \<noteq> []"
      and "\<forall>e\<in>set encodings. codecs_lookup cs e = Inr ()
             \<and> (python_encoding e = None \<or> python_encoding e = Some e)
             \<and> (python_encoding e = None \<longrightarrow> \<not> matches_ISO_IR e \<and> \<not> matches_ISO_2022_IR e)"
      and "length encodings > 1 \<longrightarrow> (\<forall>e\<in>set encodings. e \<notin> set STAND_ALONE_ENCODINGS)"
  shows "convert_encodings cs strict (Lst encodings) = ([], Inr encodings)"
proof -
  from assms(1) obtain first rest where enc: "encodings = first # rest"
    by (cases encodings) auto
  have "python_encoding [] = Some default_encoding"
    by (simp add: python_encoding_def python_encoding_items_def)
  with assms(2) enc have ne: "first \<noteq> []"
    by (auto simp: default_encoding_def)
  have res: "resolve_encodings cs strict (first # rest) [] = ([], Inr (first # rest))"
    using resolve_encodings_unchanged[OF assms(2), of strict "[]"] enc by simp
  show ?thesis
  proof (cases "rest = []")
    case True
    with res ne enc show ?thesis by (simp add: convert_encodings_def)
  next
    case False
    with assms(3) enc have sa: "first \<notin> set STAND_ALONE_ENCODINGS"
      "\<forall>e\<in>set rest. e \<notin> set STAND_ALONE_ENCODINGS"
      by (cases rest; simp)+
    from sa(2) have "\<forall>(i, e)\<in>set (rev (enumerate 0 rest)). e \<notin> set STAND_ALONE_ENCODINGS"
      by (auto simp: in_set_enumerate_eq)
    from delete_standalone_encodings_none[OF this] sa(1) res ne enc False show ?thesis
      by (simp add: convert_encodings_def handle_illegal_standalone_encodings_def)
  qed
qed

text \<open>\<open>['latin_1', 'shift_jis']\<close> and \<open>['GBK']\<close>.\<close>

theorem convert_encodings_fixed_point_witness:
  "convert_encodings py_codecs True (Lst [''latin_1'', ''shift_jis'']) =
     ([], Inr [''latin_1'', ''shift_jis''])
   \<and> convert_encodings py_codecs True (Lst [''GBK'']) = ([], Inr [''GBK''])"
  using convert_encodings_fixed_point
          [where encodings = "[''latin_1'', ''shift_jis'']" and cs = py_codecs and strict = True]
        convert_encodings_fixed_point
          [where encodings = "[''GBK'']" and cs = py_codecs and strict = True]
  by (simp add: py_codecs_def python_encoding_def python_encoding_items_def
      matches_ISO_IR_def matches_ISO_2022_IR_def STAND_ALONE_ENCODINGS_def)

text \<open>
  C6 as stated fails on \<open>['latin_1', 'GBK']\<close>: both are valid codec names, and
  \<open>GBK\<close> is also a stand-alone DICOM identifier, so it is removed from the second
  position, in both modes.
\<close>

theorem convert_encodings_fixed_point_counterexample:
  "codecs_lookup py_codecs ''latin_1'' = Inr () \<and> codecs_lookup py_codecs ''GBK'' = Inr ()
   \<and> convert_encodings py_codecs False (Lst [''latin_1'', ''GBK'']) =
       ([Not_a_code_extension_ignoring ''GBK''], Inr [''latin_1''])
   \<and> convert_encodings py_codecs True (Lst [''latin_1'', ''GBK'']) =
       ([Not_a_code_extension_ignoring ''GBK''], Inr [''latin_1''])"
  by (simp add: resolve_defs py_codecs_def)

subsection \<open>Stand-alone encodings\<close>











subsection \<open>The argument of \<open>convert_encodings\<close> is not changed\<close>

text \<open>
  The loops on the store change the object at \<open>py_encodings\<close> only, and compute what
  the loops on values compute.
\<close>

lemma resolve_encodings_st_frame:
  "py < length h \<Longrightarrow> resolve_encodings_st cs strict xs py h = (h', ws, r) \<Longrightarrow>
     length h' = length h \<and> (\<forall>a. a \<noteq> py \<longrightarrow> h' ! a = h ! a)
     \<and> resolve_encodings cs strict xs (h ! py) = (ws, map_sum id (\<lambda>_. h' ! py) r)"
proof (induction xs arbitrary: h h' ws r)
  case Nil
  then show ?case by auto
next
  case (Cons x xs)
  show ?case
  proof (cases "python_encoding x")
    case (Some p)
    let ?h = "h[py := h ! py @ [p]]"
    from Cons.prems Some have "resolve_encodings_st cs strict xs py ?h = (h', ws, r)"
      by simp
    from Cons.IH[OF _ this] Cons.prems(1) Some show ?thesis by simp
  next
    case None
    obtain ws1 r1 where c: "python_encoding_for_corrected_encoding cs strict x = (ws1, r1)"
      by (cases "python_encoding_for_corrected_encoding cs strict x")
    show ?thesis
    proof (cases r1)
      case (Inl e)
      with c None Cons.prems show ?thesis by auto
    next
      case (Inr p)
      let ?h = "h[py := h ! py @ [p]]"
      obtain h2 ws2 r2 where n: "resolve_encodings_st cs strict xs py ?h = (h2, ws2, r2)"
        by (cases "resolve_encodings_st cs strict xs py ?h")
      with c Inr None Cons.prems have eq: "h' = h2" "ws = ws1 @ ws2" "r = r2"
        by simp_all
      from Cons.IH[OF _ n] Cons.prems(1) c Inr None eq show ?thesis by simp
    qed
  qed
qed

lemma delete_standalone_encodings_st_frame:
  "py < length h \<Longrightarrow> delete_standalone_encodings_st ps py h = (h', ws, r) \<Longrightarrow>
     length h' = length h \<and> (\<forall>a. a \<noteq> py \<longrightarrow> h' ! a = h ! a)
     \<and> delete_standalone_encodings ps (h ! py) = (ws, map_sum id (\<lambda>_. h' ! py) r)"
proof (induction ps arbitrary: h h' ws r)
  case Nil
  then show ?case by auto
next
  case (Cons ie ps)
  obtain i e where ie: "ie = (i, e)" by (cases ie)
  show ?case
  proof (cases "e \<in> set STAND_ALONE_ENCODINGS")
    case False
    with Cons.prems ie have "delete_standalone_encodings_st ps py h = (h', ws, r)"
      by simp
    from Cons.IH[OF Cons.prems(1) this] False ie show ?thesis by simp
  next
    case True
    show ?thesis
    proof (cases "i + 1 < length (h ! py)")
      case False
      with True Cons.prems ie show ?thesis by auto
    next
      case inrange: True
      let ?h = "h[py := take (i + 1) (h ! py) @ drop (i + 2) (h ! py)]"
      obtain h2 ws2 r2 where n: "delete_standalone_encodings_st ps py ?h = (h2, ws2, r2)"
        by (cases "delete_standalone_encodings_st ps py ?h")
      with True inrange Cons.prems ie have eq: "h' = h2"
        "ws = Not_a_code_extension_ignoring e # ws2" "r = r2"
        by simp_all
      from Cons.IH[OF _ n] Cons.prems(1) True inrange ie eq show ?thesis by simp
    qed
  qed
qed

lemma handle_illegal_standalone_encodings_st_frame:
  assumes "encodings < length h" "py < length h"
      and "handle_illegal_standalone_encodings_st encodings py h = (h', ws, r)"
      and "encodings \<noteq> py"
  shows "length h \<le> length h' \<and> (\<forall>a<length h. a \<noteq> py \<longrightarrow> h' ! a = h ! a)
     \<and> (\<forall>ref. r = Inr ref \<longrightarrow> ref < length h' \<and> (ref = py \<or> length h \<le> ref))
     \<and> handle_illegal_standalone_encodings (h ! encodings) (h ! py)
           = (ws, map_sum id (\<lambda>ref. h' ! ref) r)"
proof (cases "h ! encodings")
  case Nil
  with assms show ?thesis
    by (auto simp: handle_illegal_standalone_encodings_st_def
        handle_illegal_standalone_encodings_def)
next
  case (Cons first rest)
  show ?thesis
  proof (cases "first \<in> set STAND_ALONE_ENCODINGS")
    case True
    with Cons assms show ?thesis
      by (auto simp: handle_illegal_standalone_encodings_st_def
          handle_illegal_standalone_encodings_def new_list_def nth_append)
  next
    case False
    obtain h2 ws2 r2 where
      n: "delete_standalone_encodings_st (rev (enumerate 0 rest)) py h = (h2, ws2, r2)"
      by (cases "delete_standalone_encodings_st (rev (enumerate 0 rest)) py h")
    from delete_standalone_encodings_st_frame[OF assms(2) n] n False Cons assms
    show ?thesis
      by (cases r2)
         (auto simp: handle_illegal_standalone_encodings_st_def
          handle_illegal_standalone_encodings_def)
  qed
qed


text \<open>
  C10. Let \<open>convert_encodings\<close> be called with the list object at \<open>arg\<close>. Whether
  it returns or raises, the object at \<open>arg\<close> holds the same elements in the same
  order afterwards, and so does every object that existed before the call; the list it
  returns is a new object, and holds what \<open>convert_encodings\<close> on values returns.
\<close>

theorem convert_encodings_keeps_argument:
  assumes "arg < length h"
      and "convert_encodings_st cs strict arg h = (h', ws, r)"
  shows "h' ! arg = h ! arg
       \<and> length h \<le> length h' \<and> (\<forall>a<length h. h' ! a = h ! a)
       \<and> (\<forall>ref. r = Inr ref \<longrightarrow> length h \<le> ref \<and> ref < length h')
       \<and> convert_encodings cs strict (Lst (h ! arg)) = (ws, map_sum id (\<lambda>ref. h' ! ref) r)"
proof -
  have main: "length h \<le> length h' \<and> (\<forall>a<length h. h' ! a = h ! a)
       \<and> (\<forall>ref. r = Inr ref \<longrightarrow> length h \<le> ref \<and> ref < length h')
       \<and> convert_encodings cs strict (Lst (h ! arg)) = (ws, map_sum id (\<lambda>ref. h' ! ref) r)"
  proof (cases "h ! arg")
    case Nil
    with assms(2) show ?thesis
      by (auto simp: convert_encodings_st_def convert_encodings_def new_list_def nth_append)
  next
    case (Cons first rest)
    let ?E = "length h"
    let ?P = "Suc (length h)"
    let ?ids = "(if first = [] then ''ISO_IR 6'' else first) # rest"
    let ?h1 = "h @ [first # rest]"
    let ?h2 = "if first = [] then ?h1[?E := (?h1 ! ?E)[0 := ''ISO_IR 6'']] else ?h1"
    let ?h3 = "?h2 @ [[]]"
    have len2: "length ?h2 = ?P" by simp
    have h3E: "?h3 ! ?E = ?ids" by (simp add: nth_append)
    have h3P: "?h3 ! ?P = []" by (simp add: nth_append)
    have h3old: "?h3 ! a = h ! a" if "a < length h" for a
      using that by (simp add: nth_append)
    obtain h4 ws1 r1 where res: "resolve_encodings_st cs strict ?ids ?P ?h3 = (h4, ws1, r1)"
      by (cases "resolve_encodings_st cs strict ?ids ?P ?h3")
    have P3: "?P < length ?h3" by simp
    note fr = resolve_encodings_st_frame[OF P3 res]
    from fr have len4: "length h4 = Suc ?P" by simp
    from fr h3E have h4E: "h4 ! ?E = ?ids" by simp
    from fr h3old have h4old: "h4 ! a = h ! a" if "a < length h" for a
      using that by simp
    from fr h3P have pure: "resolve_encodings cs strict ?ids [] = (ws1, map_sum id (\<lambda>_. h4 ! ?P) r1)"
      by simp
    have unfold: "convert_encodings_st cs strict arg h =
            (case (h4, ws1, r1) of
               (h4, ws, Inl e) \<Rightarrow> (h4, ws, Inl e)
             | (h4, ws, Inr _) \<Rightarrow>
                 if length (h4 ! ?E) > 1 then
                   (case handle_illegal_standalone_encodings_st ?E ?P h4 of
                      (h5, ws', r) \<Rightarrow> (h5, ws @ ws', r))
                 else (h4, ws, Inr ?P))"
    proof (cases "first = []")
      case True
      with Cons res show ?thesis
        unfolding convert_encodings_st_def new_list_def
        by (simp add: nth_append Let_def del: resolve_encodings_st.simps split: sum.splits)
    next
      case False
      with Cons res show ?thesis
        unfolding convert_encodings_st_def new_list_def
        by (simp add: nth_append Let_def del: resolve_encodings_st.simps split: sum.splits)
    qed
    have punfold: "convert_encodings cs strict (Lst (h ! arg)) =
            (case resolve_encodings cs strict ?ids [] of
               (ws, Inl e) \<Rightarrow> (ws, Inl e)
             | (ws, Inr py) \<Rightarrow>
                 if length ?ids > 1 then
                   (case handle_illegal_standalone_encodings ?ids py of
                      (ws', r) \<Rightarrow> (ws @ ws', r))
                 else (ws, Inr py))"
      using Cons
      by (cases "first = []")
         (simp_all add: convert_encodings_def del: resolve_encodings.simps
            split: prod.splits sum.splits)
    show ?thesis
    proof (cases r1)
      case (Inl e)
      with unfold assms(2) have "h' = h4" "ws = ws1" "r = Inl e" by simp_all
      with pure Inl len4 h4old punfold show ?thesis
        by (simp del: resolve_encodings.simps)
    next
      case (Inr u)
      show ?thesis
      proof (cases "length ?ids > 1")
        case False
        with unfold assms(2) Inr h4E have "h' = h4" "ws = ws1" "r = Inr ?P" by simp_all
        with pure Inr False len4 h4old punfold show ?thesis
          by (simp del: resolve_encodings.simps)
      next
        case True
        obtain h5 ws2 r2 where
          hd: "handle_illegal_standalone_encodings_st ?E ?P h4 = (h5, ws2, r2)"
          by (cases "handle_illegal_standalone_encodings_st ?E ?P h4")
        with unfold assms(2) Inr True h4E have eq: "h' = h5" "ws = ws1 @ ws2" "r = r2"
          by simp_all
        have "?E < length h4" "?P < length h4" "?E \<noteq> ?P"
          using len4 by simp_all
        note fh = handle_illegal_standalone_encodings_st_frame[OF this(1,2) hd this(3)]
        from fh len4 have a: "length h \<le> length h5" by simp
        from fh len4 h4old have b: "\<forall>a<length h. h5 ! a = h ! a" by simp
        from fh len4 have c: "\<forall>ref. r2 = Inr ref \<longrightarrow> length h \<le> ref \<and> ref < length h5"
          by auto
        from fh h4E have d: "handle_illegal_standalone_encodings ?ids (h4 ! ?P) =
                               (ws2, map_sum id (\<lambda>ref. h5 ! ref) r2)"
          by simp
        from pure Inr True d have "convert_encodings cs strict (Lst (h ! arg)) =
                 (ws1 @ ws2, map_sum id (\<lambda>ref. h5 ! ref) r2)"
          by (simp add: punfold del: resolve_encodings.simps)
        with a b c eq show ?thesis by simp
      qed
    qed
  qed
  with assms(1) show ?thesis by simp
qed


text \<open>
  An empty first identifier and a stand-alone identifier in the second position: the copy
  is assigned to, the result has two elements, the argument still has its three.
\<close>

theorem convert_encodings_keeps_argument_witness:
  "convert_encodings_st py_codecs False 0 [['''', ''GBK'', ''ISO 2022 IR 13'']] =
     ([['''', ''GBK'', ''ISO 2022 IR 13''],
       [''ISO_IR 6'', ''GBK'', ''ISO 2022 IR 13''],
       [''iso8859'', ''shift_jis'']],
      [Not_a_code_extension_ignoring ''GBK''], Inr 2)
   \<and> convert_encodings py_codecs False (Lst ['''', ''GBK'', ''ISO 2022 IR 13'']) =
     ([Not_a_code_extension_ignoring ''GBK''], Inr [''iso8859'', ''shift_jis''])"
proof -
  let ?h = "[['''', ''GBK'', ''ISO 2022 IR 13'']]"
  have ev: "convert_encodings_st py_codecs False 0 ?h =
     ([['''', ''GBK'', ''ISO 2022 IR 13''],
       [''ISO_IR 6'', ''GBK'', ''ISO 2022 IR 13''],
       [''iso8859'', ''shift_jis'']],
      [Not_a_code_extension_ignoring ''GBK''], Inr 2)"
    by (simp add: convert_encodings_st_def handle_illegal_standalone_encodings_st_def
        new_list_def python_encoding_def python_encoding_items_def STAND_ALONE_ENCODINGS_def
        default_encoding_def enumerate_eq_zip)
  have "0 < length ?h" by simp
  from convert_encodings_keeps_argument[OF this ev] ev show ?thesis by simp
qed

end
